theory Spec2Isabelle
  imports Main "HOL-Library.Char_ord" "HOL-Library.List_Lexorder"
begin

section \<open>JavaScript values and objects\<close>

text \<open>
  Nodes, reference targets and front-matter fields are dynamic JavaScript objects, read in
  the source by computed key (\<open>node[fieldName]\<close>). A value is one of the JavaScript
  kinds below; numbers are the integral ones. An object is its list of own properties in
  insertion order.
\<close>

datatype jsval =
    JUndefined
  | JNull
  | JBool bool
  | JNum int
  | JStr string
  | JArr "jsval list"
  | JObj "(string \<times> jsval) list"

type_synonym obj = "(string \<times> jsval) list"

text \<open>\<open>o[k]\<close>: the own property, \<open>undefined\<close> when there is none.\<close>

definition get_field :: "obj \<Rightarrow> string \<Rightarrow> jsval" where
  "get_field ob k = (case map_of ob k of None \<Rightarrow> JUndefined | Some v \<Rightarrow> v)"

text \<open>\<open>o[k] = v\<close>: overwrite in place, or append a new property.\<close>

fun set_field :: "obj \<Rightarrow> string \<Rightarrow> jsval \<Rightarrow> obj" where
  "set_field [] k v = [(k, v)]"
| "set_field ((k', v') # ob) k v =
     (if k' = k then (k, v) # ob else (k', v') # set_field ob k v)"

text \<open>\<open>o.a.b\<close> where \<open>o.a\<close> is an object; \<open>undefined\<close> when \<open>o.a\<close> is not one.\<close>

definition get_path2 :: "obj \<Rightarrow> string \<Rightarrow> string \<Rightarrow> jsval" where
  "get_path2 ob a b = (case get_field ob a of JObj inner \<Rightarrow> get_field inner b | _ \<Rightarrow> JUndefined)"

text \<open>Truthiness, as \<open>if (v)\<close>, \<open>!v\<close> and \<open>a && b\<close> read a value.\<close>

fun truthy :: "jsval \<Rightarrow> bool" where
  "truthy JUndefined = False"
| "truthy JNull = False"
| "truthy (JBool b) = b"
| "truthy (JNum n) = (n \<noteq> 0)"
| "truthy (JStr s) = (s \<noteq> [])"
| "truthy (JArr xs) = True"
| "truthy (JObj ob) = True"

subsection \<open>Strings\<close>

definition digit_char :: "nat \<Rightarrow> char" where
  "digit_char d = ''0123456789'' ! d"

fun show_nat :: "nat \<Rightarrow> string" where
  "show_nat n = (if n < 10 then [digit_char n] else show_nat (n div 10) @ [digit_char (n mod 10)])"

declare show_nat.simps [simp del]

definition show_int :: "int \<Rightarrow> string" where
  "show_int i = (if i < 0 then CHR ''-'' # show_nat (nat (- i)) else show_nat (nat i))"

text \<open>\<open>xs.join(sep)\<close> on an array of strings.\<close>

fun join :: "string \<Rightarrow> string list \<Rightarrow> string" where
  "join sep [] = []"
| "join sep [x] = x"
| "join sep (x # y # zs) = x @ sep @ join sep (y # zs)"

text \<open>
  String conversion, as a template literal \<open>`${v}`\<close> performs it. An array prints its
  elements joined by commas, with \<open>null\<close> and \<open>undefined\<close> elements printed empty.
\<close>

fun to_string :: "jsval \<Rightarrow> string" where
  "to_string JUndefined = ''undefined''"
| "to_string JNull = ''null''"
| "to_string (JBool b) = (if b then ''true'' else ''false'')"
| "to_string (JNum n) = show_int n"
| "to_string (JStr s) = s"
| "to_string (JArr xs) =
     join '','' (map (\<lambda>x. if x = JUndefined \<or> x = JNull then [] else to_string x) xs)"
| "to_string (JObj ob) = ''[object Object]''"

text \<open>\<open>s.split("/")\<close>: never empty; the empty string splits into one empty part.\<close>

fun split_slash :: "string \<Rightarrow> string list" where
  "split_slash [] = [[]]"
| "split_slash (c # cs) =
     (if c = CHR ''/'' then [] # split_slash cs
      else (case split_slash cs of [] \<Rightarrow> [[c]] | w # ws \<Rightarrow> (c # w) # ws))"

text \<open>lodash \<open>trimEnd(s, "/")\<close> and \<open>trim(s, "/")\<close>: every trailing (and leading) slash goes.\<close>

definition trimEnd_slash :: "string \<Rightarrow> string" where
  "trimEnd_slash s = rev (dropWhile (\<lambda>c. c = CHR ''/'') (rev s))"

definition trim_slash :: "string \<Rightarrow> string" where
  "trim_slash s = trimEnd_slash (dropWhile (\<lambda>c. c = CHR ''/'') s)"

subsection \<open>Node's \<open>path.dirname\<close> (POSIX)\<close>

text \<open>
  The scan of \<open>path.dirname\<close> from the last character down to index 1: the index of the
  slash that ends the directory part, skipping the slashes that end the path.
\<close>

fun dirname_end :: "string \<Rightarrow> nat \<Rightarrow> bool \<Rightarrow> nat option" where
  "dirname_end p 0 matchedSlash = None"
| "dirname_end p (Suc i) matchedSlash =
     (if p ! Suc i = CHR ''/''
      then (if \<not> matchedSlash then Some (Suc i) else dirname_end p i matchedSlash)
      else dirname_end p i False)"

definition dirname :: "string \<Rightarrow> string" where
  "dirname p =
     (if p = [] then ''.''
      else (let hasRoot = (hd p = CHR ''/'') in
        case dirname_end p (length p - 1) True of
          None \<Rightarrow> (if hasRoot then ''/'' else ''.'')
        | Some e \<Rightarrow> (if hasRoot \<and> e = 1 then ''//'' else take e p)))"

section \<open>Configuration, collaborators and plugin state\<close>

text \<open>
  The plugin options (\<open>defaultOptions\<close>). A declared reference is a bare type name or an
  object; \<open>sidebarOrder\<close> and \<open>refs\<close> are objects, held as their properties in the order
  the engine enumerates them.
\<close>

datatype refspec = RefName string | RefObj obj

record options =
  baseDir :: "string option"
  path :: "string option"
  route :: "string option"
  pathPrefix :: "string option"
  sidebarOrder :: "(string \<times> string list) list"
  index :: "string list"
  typeName :: string
  refs :: "(string \<times> refspec) list"

text \<open>
  What the plugin calls and does not define: the host's \<open>actions.slugify\<close> and
  \<open>api.config.permalinks.trailingSlash\<close>, the resolved \<open>this.context\<close>, the node the
  host collection builds from the options handed to \<open>addNode\<close>/\<open>updateNode\<close> (its content
  transformers add the fields read from the file, such as \<open>weight\<close>), the packages
  \<open>slash\<close> and \<open>mime-types\<close>, the MD5 digest, Node's \<open>path.relative\<close>, \<open>path.join\<close>
  and \<open>path.parse\<close> (directory, name, extension), the engine's \<open>Array.prototype.sort\<close>
  on an array of object references, and its conversion of a string to a number
  (\<open>None\<close> is NaN).
\<close>

record host =
  slugify :: "string \<Rightarrow> string"
  trailingSlash :: bool
  context_dir :: string
  node_of :: "obj \<Rightarrow> obj"
  slash :: "string \<Rightarrow> string"
  mime_lookup :: "string \<Rightarrow> string option"
  md5_hex :: "string \<Rightarrow> string"
  path_relative :: "string \<Rightarrow> string \<Rightarrow> string"
  path_join :: "string \<Rightarrow> string \<Rightarrow> string"
  path_parse :: "string \<Rightarrow> string \<times> string \<times> string"
  array_sort :: "(nat \<Rightarrow> nat \<Rightarrow> int) \<Rightarrow> nat list \<Rightarrow> nat list"
  string_to_number :: "string \<Rightarrow> int option"

text \<open>The file system a read sees: the content stored at an absolute path, if readable.\<close>

type_synonym filesystem = "string \<Rightarrow> string option"

datatype error = FileReadError string | TypeError string

text \<open>
  The plugin instance: \<open>this.refs\<close>, \<open>this.refsCache\<close> (the keys set to \<open>true\<close>), and the
  host's graph. \<open>collections\<close> and \<open>references\<close> record the \<open>addCollection\<close> and
  \<open>addReference\<close> calls.

  Modelled from the spec: the host content-graph store is not part of this repository.
  A collection is the list of its nodes in insertion order, found by its type name
  (\<open>getCollection\<close>); \<open>this.collection\<close> is the one named \<open>options.typeName\<close>.
\<close>

record state =
  this_refs :: "(string \<times> obj) list"
  refsCache :: "string set"
  store :: "string \<Rightarrow> obj list"
  collections :: "string list"
  references :: "(string \<times> string) list"

definition init_state :: state where
  "init_state = \<lparr> this_refs = [], refsCache = {}, store = (\<lambda>t. []),
     collections = [], references = [] \<rparr>"

section \<open>Path and metadata helpers\<close>

text \<open>\<open>createDocInfo\<close>: \<open>None\<close> is the \<open>undefined\<close> the \<open>default\<close> branch falls out with.\<close>

definition createDocInfo :: "string \<Rightarrow> obj option" where
  "createDocInfo file =
     (let parts = split_slash (dirname file) in
      if length parts = 1 then Some [(''version'', JStr (parts ! 0))]
      else if length parts = 2 then
        Some [(''version'', JStr (parts ! 0)), (''section'', JStr (parts ! 1))]
      else None)"

definition createPath :: "host \<Rightarrow> options \<Rightarrow> string \<Rightarrow> string \<Rightarrow> string" where
  "createPath H opts dir name =
     (let pathPrefix' = trim_slash (case pathPrefix opts of None \<Rightarrow> [] | Some p \<Rightarrow> p);
          pathSuffix = (if trailingSlash H then ''/'' else []);
          segments = map (slugify H) (split_slash (slash H dir));
          segments = (if name \<in> set (index opts) then segments
                      else segments @ [slugify H name]);
          segments = (if pathPrefix' \<noteq> [] then pathPrefix' # segments else segments);
          res = trimEnd_slash (''/'' @ join ''/'' (filter (\<lambda>s. s \<noteq> []) segments))
      in if res @ pathSuffix = [] then ''/'' else res @ pathSuffix)"

definition createUid :: "host \<Rightarrow> string \<Rightarrow> string" where
  "createUid H orgId = md5_hex H orgId"

text \<open>
  \<open>createNodeOptions\<close>. The read comes first and may reject; \<open>docInfo.version\<close> throws a
  TypeError when \<open>createDocInfo\<close> returned \<open>undefined\<close>.
\<close>

definition createNodeOptions :: "host \<Rightarrow> options \<Rightarrow> filesystem \<Rightarrow> string \<Rightarrow> error + obj" where
  "createNodeOptions H opts fs file =
     (let relPath = path_relative H (context_dir H) file;
          origin = path_join H (context_dir H) file
      in case fs origin of
           None \<Rightarrow> Inl (FileReadError origin)
         | Some content \<Rightarrow>
            (let (dir, name, ext) = path_parse H file;
                 fallback = ''application/x-'' @ remove1 (CHR ''.'') ext;
                 mimeType = (case mime_lookup H file of
                               None \<Rightarrow> fallback
                             | Some m \<Rightarrow> if m = [] then fallback else m)
             in case createDocInfo file of
                  None \<Rightarrow> Inl (TypeError ''docInfo is undefined'')
                | Some docInfo \<Rightarrow>
                    Inr [(''id'', JStr (createUid H relPath)),
                         (''path'', JStr (createPath H opts dir name)),
                         (''fileInfo'', JObj [(''extension'', JStr ext),
                                              (''directory'', JStr dir),
                                              (''path'', JStr file),
                                              (''name'', JStr name)]),
                         (''version'', get_field docInfo ''version''),
                         (''section'', get_field docInfo ''section''),
                         (''internal'', JObj [(''mimeType'', JStr mimeType),
                                              (''content'', JStr content),
                                              (''origin'', JStr origin)])]))"

section \<open>The host collection\<close>

text \<open>
  Modelled from the spec: the host collection's \<open>addNode\<close>, \<open>updateNode\<close>,
  \<open>removeNode(filter)\<close> and \<open>findNodes(filter)\<close> are not part of this repository.
  \<open>addNode\<close> registers the node built from the options and returns it. \<open>updateNode\<close>
  replaces, wholesale, the existing node addressed by the same id and returns the new
  node; with no such node it returns none (the plugin guards its result with
  \<open>node && ...\<close>). \<open>removeNode\<close> locates the node that matches the filter and deletes it,
  and does nothing when none matches. \<open>findNodes\<close> answers with references to the
  matching nodes, in collection order; a reference is the node's position in the
  collection, so that a write through it is seen in the graph.
\<close>

definition addNode :: "host \<Rightarrow> string \<Rightarrow> obj \<Rightarrow> state \<Rightarrow> obj \<times> state" where
  "addNode H t node_options s =
     (let node = node_of H node_options
      in (node, s\<lparr>store := (store s)(t := store s t @ [node])\<rparr>))"

fun replace_first :: "('a \<Rightarrow> bool) \<Rightarrow> 'a \<Rightarrow> 'a list \<Rightarrow> 'a list" where
  "replace_first P y [] = []"
| "replace_first P y (x # xs) = (if P x then y # xs else x # replace_first P y xs)"

fun remove_first :: "('a \<Rightarrow> bool) \<Rightarrow> 'a list \<Rightarrow> 'a list" where
  "remove_first P [] = []"
| "remove_first P (x # xs) = (if P x then xs else x # remove_first P xs)"

definition updateNode :: "host \<Rightarrow> string \<Rightarrow> obj \<Rightarrow> state \<Rightarrow> obj option \<times> state" where
  "updateNode H t node_options s =
     (let node = node_of H node_options;
          same_id = (\<lambda>n. get_field n ''id'' = get_field node_options ''id'')
      in if list_ex same_id (store s t)
         then (Some node, s\<lparr>store := (store s)(t := replace_first same_id node (store s t))\<rparr>)
         else (None, s))"

definition has_origin :: "string \<Rightarrow> obj \<Rightarrow> bool" where
  "has_origin absPath n = (get_path2 n ''internal'' ''origin'' = JStr absPath)"

definition removeNode :: "string \<Rightarrow> string \<Rightarrow> state \<Rightarrow> state" where
  "removeNode t absPath s =
     s\<lparr>store := (store s)(t := remove_first (has_origin absPath) (store s t))\<rparr>"

definition findNodes :: "obj list \<Rightarrow> string \<Rightarrow> string \<Rightarrow> nat list" where
  "findNodes g title vid =
     filter (\<lambda>i. get_field (g ! i) ''section'' = JStr title \<and> get_field (g ! i) ''version'' = JStr vid)
       [0..<length g]"

section \<open>References\<close>

definition normalizeRef :: "options \<Rightarrow> refspec \<Rightarrow> obj" where
  "normalizeRef opts r =
     (let r0 = (case r of
                  RefName name \<Rightarrow> [(''typeName'', JStr name), (''create'', JBool False)]
                | RefObj ob \<Rightarrow> ob);
          r1 = (if \<not> truthy (get_field r0 ''typeName'')
                then set_field r0 ''typeName'' (JStr (typeName opts)) else r0)
      in if truthy (get_field r1 ''create'')
         then set_field r1 ''create'' (JBool True)
         else set_field r1 ''create'' (JBool False))"

definition normalizeRefs :: "options \<Rightarrow> (string \<times> refspec) list \<Rightarrow> (string \<times> obj) list" where
  "normalizeRefs opts rs = map (\<lambda>(fieldName, r). (fieldName, normalizeRef opts r)) rs"

definition createCollections_ref :: "state \<Rightarrow> string \<times> obj \<Rightarrow> state" where
  "createCollections_ref s kr =
     (let t = to_string (get_field (snd kr) ''typeName'');
          s1 = s\<lparr>references := references s @ [(fst kr, t)]\<rparr>
      in if truthy (get_field (snd kr) ''create'')
         then s1\<lparr>collections := collections s1 @ [t]\<rparr> else s1)"

definition createCollections :: "options \<Rightarrow> state \<Rightarrow> state" where
  "createCollections opts s =
     (let s1 = s\<lparr>this_refs := normalizeRefs opts (refs opts)\<rparr>;
          s2 = s1\<lparr>collections := collections s1 @ [typeName opts]\<rparr>
      in foldl createCollections_ref s2 (this_refs s2))"

definition cacheKey :: "jsval \<Rightarrow> string \<Rightarrow> jsval \<Rightarrow> string" where
  "cacheKey tn fieldName v = to_string tn @ ''-'' @ fieldName @ ''-'' @ to_string v"

definition stub :: "jsval \<Rightarrow> obj" where
  "stub v = [(''id'', v), (''title'', v)]"

definition addRefNode :: "host \<Rightarrow> jsval \<Rightarrow> string \<Rightarrow> jsval \<Rightarrow> state \<Rightarrow> state" where
  "addRefNode H tn fieldName v s =
     (if cacheKey tn fieldName v \<notin> refsCache s \<and> truthy v
      then snd (addNode H (to_string tn) (stub v)
                  (s\<lparr>refsCache := insert (cacheKey tn fieldName v) (refsCache s)\<rparr>))
      else s)"

text \<open>The body of the \<open>for (const fieldName in this.refs)\<close> loop, and the loop.\<close>

definition createNodeRefs_field :: "host \<Rightarrow> obj option \<Rightarrow> state \<Rightarrow> string \<times> obj \<Rightarrow> state" where
  "createNodeRefs_field H node s fr =
     (case node of
        None \<Rightarrow> s
      | Some n \<Rightarrow>
         (if truthy (get_field n (fst fr)) \<and> truthy (get_field (snd fr) ''create'')
          then (let v = get_field n (fst fr); tn = get_field (snd fr) ''typeName''
                in case v of
                     JArr vs \<Rightarrow> foldl (\<lambda>s' v'. addRefNode H tn (fst fr) v' s') s vs
                   | _ \<Rightarrow> addRefNode H tn (fst fr) v s)
          else s))"

definition createNodeRefs :: "host \<Rightarrow> obj option \<Rightarrow> state \<Rightarrow> state" where
  "createNodeRefs H node s = foldl (createNodeRefs_field H node) s (this_refs s)"

section \<open>Ingestion\<close>

text \<open>
  One unit of \<open>createNodes\<close>, also the watcher's \<open>add\<close> handler: the record is computed
  first, so a unit that fails has changed nothing.
\<close>

definition ingest :: "host \<Rightarrow> options \<Rightarrow> filesystem \<Rightarrow> string \<Rightarrow> state \<Rightarrow> error + state" where
  "ingest H opts fs file s =
     (case createNodeOptions H opts fs file of
        Inl e \<Rightarrow> Inl e
      | Inr node_options \<Rightarrow>
          (let (node, s1) = addNode H (typeName opts) node_options s
           in Inr (createNodeRefs H (Some node) s1)))"

text \<open>
  \<open>Promise.all(files.map(async ...))\<close>: every unit is started and runs to its end
  whatever the others do; the units are taken in the order their reads complete, which
  is the order of the list. The errors are the rejections, in that order.
\<close>

fun createNodes_units ::
  "host \<Rightarrow> options \<Rightarrow> filesystem \<Rightarrow> string list \<Rightarrow> state \<Rightarrow> error list \<times> state" where
  "createNodes_units H opts fs [] s = ([], s)"
| "createNodes_units H opts fs (file # files) s =
     (case ingest H opts fs file s of
        Inl e \<Rightarrow> (let (es, s') = createNodes_units H opts fs files s in (e # es, s'))
      | Inr s1 \<Rightarrow> createNodes_units H opts fs files s1)"

text \<open>
  \<open>createNodes\<close> awaits \<open>Promise.all\<close>, which rejects with the first rejection; \<open>files\<close>
  is what the glob matched.
\<close>

definition createNodes ::
  "host \<Rightarrow> options \<Rightarrow> filesystem \<Rightarrow> string list \<Rightarrow> state \<Rightarrow> (error + unit) \<times> state" where
  "createNodes H opts fs files s =
     (let (es, s') = createNodes_units H opts fs files s
      in (case es of [] \<Rightarrow> Inr () | e # _ \<Rightarrow> Inl e, s'))"

section \<open>Sidebar\<close>

text \<open>
  The relational \<open>a > b\<close> of JavaScript: objects and arrays are first turned into their
  strings; two strings compare by code units, anything else as numbers, and a
  comparison with NaN is false.
\<close>

definition to_primitive :: "jsval \<Rightarrow> jsval" where
  "to_primitive v = (case v of JArr xs \<Rightarrow> JStr (to_string v) | JObj ob \<Rightarrow> JStr (to_string v) | _ \<Rightarrow> v)"

definition to_number :: "host \<Rightarrow> jsval \<Rightarrow> int option" where
  "to_number H v =
     (case v of
        JUndefined \<Rightarrow> None
      | JNull \<Rightarrow> Some 0
      | JBool b \<Rightarrow> Some (if b then 1 else 0)
      | JNum n \<Rightarrow> Some n
      | JStr s \<Rightarrow> string_to_number H s
      | _ \<Rightarrow> None)"

definition js_gt :: "host \<Rightarrow> jsval \<Rightarrow> jsval \<Rightarrow> bool" where
  "js_gt H a b =
     (case (to_primitive a, to_primitive b) of
        (JStr x, JStr y) \<Rightarrow> y < x
      | (pa, pb) \<Rightarrow>
          (case (to_number H pa, to_number H pb) of
             (Some x, Some y) \<Rightarrow> y < x
           | _ \<Rightarrow> False))"

text \<open>The comparator of \<open>sortSection\<close>: \<open>a.weight > b.weight ? 1 : -1\<close>.\<close>

definition weight_order :: "host \<Rightarrow> obj \<Rightarrow> obj \<Rightarrow> int" where
  "weight_order H a b = (if js_gt H (get_field a ''weight'') (get_field b ''weight'') then 1 else - 1)"

text \<open>
  One round of the loop of \<open>sortSection\<close> at index \<open>i\<close>: \<open>nodes\<close> is the sorted array of
  references, \<open>g\<close> the collection the references point into.
\<close>

definition link_step :: "nat list \<Rightarrow> obj list \<Rightarrow> nat \<Rightarrow> obj list" where
  "link_step nodes g i =
     (let node = nodes ! i;
          g1 = (if i + 1 < length nodes
                then g[node := set_field (g ! node) ''next'' (get_field (g ! (nodes ! (i + 1))) ''path'')]
                else g)
      in if 0 < i
         then g1[node := set_field (g1 ! node) ''prev'' (get_field (g1 ! (nodes ! (i - 1))) ''path'')]
         else g1)"

text \<open>\<open>sortSection\<close> sorts the array it is given and writes the links into its nodes.\<close>

definition sortSection :: "host \<Rightarrow> obj list \<Rightarrow> nat list \<Rightarrow> obj list \<times> nat list" where
  "sortSection H g nodes =
     (let sorted = array_sort H (\<lambda>a b. weight_order H (g ! a) (g ! b)) nodes
      in (foldl (link_step sorted) g [0..<length sorted], sorted))"

text \<open>
  The local \<open>sidebar\<close> object of \<open>createSidebar\<close>: for each version key, its sections, a
  section being its title and its items.
\<close>

type_synonym sidebar = "(string \<times> (jsval \<times> jsval list) list) list"

fun push_existing :: "jsval \<Rightarrow> jsval \<Rightarrow> (jsval \<times> jsval list) list \<Rightarrow> (jsval \<times> jsval list) list" where
  "push_existing title p [] = []"
| "push_existing title p (e # es) =
     (if fst e = title then (fst e, snd e @ [p]) # es else e # push_existing title p es)"

text \<open>
  \<open>sidebar\<close> is a plain object, so \<open>sidebar[version]\<close> also finds what it inherits from
  \<open>Object.prototype\<close>: for a version named like one of these members the test
  \<open>typeof sidebar[version] === "undefined"\<close> fails, no entry is made, and
  \<open>sidebar[version].sections.some\<close> throws a TypeError.
\<close>

definition object_prototype_keys :: "string list" where
  "object_prototype_keys =
     [''constructor'', ''__defineGetter__'', ''__defineSetter__'', ''hasOwnProperty'',
      ''__lookupGetter__'', ''__lookupSetter__'', ''isPrototypeOf'', ''propertyIsEnumerable'',
      ''toString'', ''valueOf'', ''__proto__'', ''toLocaleString'']"

definition createSidebarSection :: "sidebar \<Rightarrow> obj \<Rightarrow> error + sidebar" where
  "createSidebarSection sb node =
     (let version = to_string (get_field node ''version'');
          title = get_field node ''section''
      in if map_of sb version = None \<and> version \<in> set object_prototype_keys
         then Inl (TypeError ''sections is undefined'')
         else
          (let sb1 = (case map_of sb version of None \<Rightarrow> sb @ [(version, [])] | Some secs \<Rightarrow> sb)
           in Inr (map (\<lambda>(k, secs).
                if k = version
                then (k, if list_ex (\<lambda>e. fst e = title) secs
                         then push_existing title (get_field node ''path'') secs
                         else secs @ [(title, [get_field node ''path''])])
                else (k, secs)) sb1)))"

text \<open>\<open>nodes.forEach((node) => this.createSidebarSection(sidebar, node))\<close>, up to a throw.\<close>

fun createSidebar_nodes :: "sidebar \<Rightarrow> obj list \<Rightarrow> error + sidebar" where
  "createSidebar_nodes sb [] = Inr sb"
| "createSidebar_nodes sb (node # nodes) =
     (case createSidebarSection sb node of
        Inl e \<Rightarrow> Inl e
      | Inr sb' \<Rightarrow> createSidebar_nodes sb' nodes)"

text \<open>
  The order in which \<open>for (const key in sidebar)\<close> visits the keys: the array indices in
  ascending order, then the other keys in insertion order.
\<close>

definition key_value :: "string \<Rightarrow> int" where
  "key_value k = foldl (\<lambda>n c. 10 * n + (of_char c - 48)) 0 k"

definition is_index_key :: "string \<Rightarrow> bool" where
  "is_index_key k =
     (k \<noteq> [] \<and> list_all (\<lambda>c. c \<in> set ''0123456789'') k \<and> (k = ''0'' \<or> hd k \<noteq> CHR ''0'')
      \<and> key_value k < 4294967295)"

definition enum_order :: "(string \<times> 'a) list \<Rightarrow> (string \<times> 'a) list" where
  "enum_order kvs =
     sort_key (\<lambda>kv. key_value (fst kv)) (filter (\<lambda>kv. is_index_key (fst kv)) kvs)
     @ filter (\<lambda>kv. \<not> is_index_key (fst kv)) kvs"

text \<open>
  The body of \<open>order.forEach((title) => ...)\<close> for the version \<open>vid\<close>: the links are
  written into the collection before the sections are filled, so they stay when filling
  throws.
\<close>

definition createSidebar_title ::
  "host \<Rightarrow> string \<Rightarrow> string \<Rightarrow> state \<Rightarrow> sidebar \<Rightarrow> string \<Rightarrow> (error + sidebar) \<times> state" where
  "createSidebar_title H t vid s sb title =
     (let nodes = findNodes (store s t) title vid;
          (g', sorted) = sortSection H (store s t) nodes
      in (createSidebar_nodes sb (map (\<lambda>i. g' ! i) sorted),
          s\<lparr>store := (store s)(t := g')\<rparr>))"

text \<open>The two loops over \<open>sidebarOrder\<close>: the titles of one version, and the versions.\<close>

fun createSidebar_order ::
  "host \<Rightarrow> string \<Rightarrow> string \<Rightarrow> state \<Rightarrow> sidebar \<Rightarrow> string list \<Rightarrow> (error + sidebar) \<times> state" where
  "createSidebar_order H t vid s sb [] = (Inr sb, s)"
| "createSidebar_order H t vid s sb (title # titles) =
     (case createSidebar_title H t vid s sb title of
        (Inl e, s') \<Rightarrow> (Inl e, s')
      | (Inr sb', s') \<Rightarrow> createSidebar_order H t vid s' sb' titles)"

fun createSidebar_versions ::
  "host \<Rightarrow> string \<Rightarrow> state \<Rightarrow> sidebar \<Rightarrow> (string \<times> string list) list \<Rightarrow> (error + sidebar) \<times> state" where
  "createSidebar_versions H t s sb [] = (Inr sb, s)"
| "createSidebar_versions H t s sb (vo # vos) =
     (case createSidebar_order H t (fst vo) s sb (snd vo) of
        (Inl e, s') \<Rightarrow> (Inl e, s')
      | (Inr sb', s') \<Rightarrow> createSidebar_versions H t s' sb' vos)"

definition sidebar_node :: "string \<times> (jsval \<times> jsval list) list \<Rightarrow> obj" where
  "sidebar_node kv =
     [(''id'', JStr (fst kv)),
      (''sections'', JArr (map (\<lambda>e. JObj [(''title'', fst e), (''items'', JArr (snd e))]) (snd kv)))]"

text \<open>
  \<open>createSidebar\<close>, with how it ends: it returns, or it throws out of the loops, before
  any Sidebar node is added. \<open>createSidebar\<close> below is the state it leaves either way.
\<close>

definition createSidebar_run :: "host \<Rightarrow> options \<Rightarrow> state \<Rightarrow> (error + unit) \<times> state" where
  "createSidebar_run H opts s =
     (let s0 = s\<lparr>collections := collections s @ [''Sidebar'']\<rparr>
      in case createSidebar_versions H (typeName opts) s0 [] (sidebarOrder opts) of
           (Inl e, s1) \<Rightarrow> (Inl e, s1)
         | (Inr sb, s1) \<Rightarrow>
             (Inr (), foldl (\<lambda>s' kv. snd (addNode H ''Sidebar'' (sidebar_node kv) s')) s1
                        (enum_order sb)))"

definition createSidebar :: "host \<Rightarrow> options \<Rightarrow> state \<Rightarrow> state" where
  "createSidebar H opts s = snd (createSidebar_run H opts s)"

section \<open>Load and watch\<close>

text \<open>
  The \<open>loadSource\<close> callback: a rejection of \<open>createNodes\<close> leaves it before
  \<open>createSidebar\<close>, with the state as the units leave it; otherwise it ends as
  \<open>createSidebar\<close> does.
\<close>

definition loadSource ::
  "host \<Rightarrow> options \<Rightarrow> filesystem \<Rightarrow> string list \<Rightarrow> state \<Rightarrow> (error + unit) \<times> state" where
  "loadSource H opts fs files s =
     (let s1 = createCollections opts s;
          (r, s2) = createNodes H opts fs files s1
      in case r of
           Inl e \<Rightarrow> (Inl e, s2)
         | Inr u \<Rightarrow> createSidebar_run H opts s2)"

text \<open>The three handlers of \<open>watchFiles\<close>.\<close>

definition watch_add :: "host \<Rightarrow> options \<Rightarrow> filesystem \<Rightarrow> string \<Rightarrow> state \<Rightarrow> error + state" where
  "watch_add H opts fs file s = ingest H opts fs (slash H file) s"

definition watch_unlink :: "host \<Rightarrow> options \<Rightarrow> string \<Rightarrow> state \<Rightarrow> state" where
  "watch_unlink H opts file s =
     (let absPath = path_join H (context_dir H) (slash H file)
      in removeNode (typeName opts) absPath s)"

definition watch_change :: "host \<Rightarrow> options \<Rightarrow> filesystem \<Rightarrow> string \<Rightarrow> state \<Rightarrow> error + state" where
  "watch_change H opts fs file s =
     (case createNodeOptions H opts fs (slash H file) of
        Inl e \<Rightarrow> Inl e
      | Inr node_options \<Rightarrow>
          (let (node, s1) = updateNode H (typeName opts) node_options s
           in Inr (createNodeRefs H node s1)))"

text \<open>
  A watcher event with the file system it finds. A handler that rejects has changed
  nothing, and the watcher goes on with the next event.
\<close>

datatype event = Add string | Unlink string | Change string

fun watch_event :: "host \<Rightarrow> options \<Rightarrow> state \<Rightarrow> filesystem \<times> event \<Rightarrow> state" where
  "watch_event H opts s (fs, Add file) =
     (case watch_add H opts fs file s of Inl e \<Rightarrow> s | Inr s' \<Rightarrow> s')"
| "watch_event H opts s (fs, Unlink file) = watch_unlink H opts file s"
| "watch_event H opts s (fs, Change file) =
     (case watch_change H opts fs file s of Inl e \<Rightarrow> s | Inr s' \<Rightarrow> s')"

definition watch_events :: "host \<Rightarrow> options \<Rightarrow> (filesystem \<times> event) list \<Rightarrow> state \<Rightarrow> state" where
  "watch_events H opts evs s = foldl (watch_event H opts) s evs"

section \<open>The engine's sort\<close>

text \<open>
  V8's \<open>Array.prototype.sort\<close> (Node 11 and later) as it runs on an array of fewer than
  64 elements: the run at the start of the array is counted, and reversed when it is
  descending; the rest is inserted by binary search. (Longer arrays are cut into several
  runs that are merged, which is not described here.)
\<close>

fun run_length :: "('a \<Rightarrow> 'a \<Rightarrow> int) \<Rightarrow> bool \<Rightarrow> 'a \<Rightarrow> 'a list \<Rightarrow> nat" where
  "run_length cmp desc prev [] = 0"
| "run_length cmp desc prev (x # xs) =
     (let order = cmp x prev
      in if (if desc then 0 \<le> order else order < 0) then 0
         else Suc (run_length cmp desc x xs))"

definition count_and_make_run :: "('a \<Rightarrow> 'a \<Rightarrow> int) \<Rightarrow> 'a list \<Rightarrow> nat \<times> 'a list" where
  "count_and_make_run cmp xs =
     (case xs of
        a # b # rest \<Rightarrow>
          (let desc = (cmp b a < 0);
               n = 2 + run_length cmp desc b rest
           in (n, if desc then rev (take n xs) @ drop n xs else xs))
      | _ \<Rightarrow> (length xs, xs))"

function insertion_point :: "('a \<Rightarrow> 'a \<Rightarrow> int) \<Rightarrow> 'a \<Rightarrow> 'a list \<Rightarrow> nat \<Rightarrow> nat \<Rightarrow> nat" where
  "insertion_point cmp pivot xs left right =
     (if left < right
      then (let mid = left + (right - left) div 2
            in if cmp pivot (xs ! mid) < 0
               then insertion_point cmp pivot xs left mid
               else insertion_point cmp pivot xs (mid + 1) right)
      else left)"
  by pat_completeness auto
termination
  by (relation "measure (\<lambda>(cmp, pivot, xs, left, right). right - left)") auto

declare insertion_point.simps [simp del]

definition binary_insert :: "('a \<Rightarrow> 'a \<Rightarrow> int) \<Rightarrow> 'a list \<Rightarrow> nat \<Rightarrow> 'a list" where
  "binary_insert cmp xs start =
     (let pivot = xs ! start;
          left = insertion_point cmp pivot xs 0 start
      in take left xs @ [pivot] @ drop left (take start xs) @ drop (Suc start) xs)"

definition v8_sort :: "('a \<Rightarrow> 'a \<Rightarrow> int) \<Rightarrow> 'a list \<Rightarrow> 'a list" where
  "v8_sort cmp xs =
     (if length xs < 2 then xs
      else (let (n, ys) = count_and_make_run cmp xs
            in foldl (binary_insert cmp) ys [n..<length ys]))"

section \<open>A configuration to run the plugin on\<close>

text \<open>
  \<open>defaultOptions\<close> is the plugin's own. \<open>example_host\<close> stands for the collaborators on
  ordinary input: a slug keeps letters, digits and hyphens and turns every other
  character into a hyphen; paths are relative, slash-separated POSIX paths below
  \<open>/site\<close>; no mime type is known; the digest is left symbolic (the path itself); the
  host adds no field to a node; the engine is V8.
\<close>

definition defaultOptions :: options where
  "defaultOptions = \<lparr> baseDir = None, path = None, route = None, pathPrefix = None,
     sidebarOrder = [], index = [''index''], typeName = ''FileNode'', refs = [] \<rparr>"

definition example_slugify :: "string \<Rightarrow> string" where
  "example_slugify s =
     map (\<lambda>c. if c \<in> set ''abcdefghijklmnopqrstuvwxyzABCDEFGHIJKLMNOPQRSTUVWXYZ0123456789-''
              then c else CHR ''-'') s"

definition example_parse :: "string \<Rightarrow> string \<times> string \<times> string" where
  "example_parse file =
     (let parts = split_slash file;
          base = last parts;
          dir = join ''/'' (butlast parts);
          i = length (dropWhile (\<lambda>c. c \<noteq> CHR ''.'') (rev base))
      in if i \<le> 1 then (dir, base, []) else (dir, take (i - 1) base, drop (i - 1) base))"

definition example_host :: host where
  "example_host = \<lparr> slugify = example_slugify, trailingSlash = False,
     context_dir = ''/site'', node_of = (\<lambda>node_options. node_options),
     slash = (\<lambda>p. p), mime_lookup = (\<lambda>file. None), md5_hex = (\<lambda>orgId. orgId),
     path_relative = (\<lambda>from file. file), path_join = (\<lambda>from file. from @ ''/'' @ file),
     path_parse = example_parse, array_sort = v8_sort,
     string_to_number = (\<lambda>s. None) \<rparr>"

text \<open>A file system in which every path is readable, with the same content.\<close>

definition all_readable :: "string \<Rightarrow> filesystem" where
  "all_readable content = (\<lambda>p. Some content)"

section \<open>Notions used in the statements\<close>

text \<open>
  The segments of a computed path, as the specification lists them: the configured
  prefix (without its outer slashes) if it is not empty, the slug of every directory
  segment, and the slug of the base name unless it is an index name; empty segments do
  not count.
\<close>

definition path_segments :: "host \<Rightarrow> options \<Rightarrow> string \<Rightarrow> string \<Rightarrow> string list" where
  "path_segments H opts dir name =
     (let pre = trim_slash (case pathPrefix opts of None \<Rightarrow> [] | Some p \<Rightarrow> p)
      in filter (\<lambda>s. s \<noteq> [])
           ((if pre = [] then [] else [pre]) @ map (slugify H) (split_slash (slash H dir))
            @ (if name \<in> set (index opts) then [] else [slugify H name])))"

text \<open>
  The \<open>addRefNode\<close> calls that one round of the loop of \<open>createNodeRefs\<close> makes for a
  node, as (type name, field name, value), and a list of such calls run in order. A call
  is settled in a state when running it there creates nothing: its key is in the cache,
  or its value is falsy.
\<close>

definition ref_calls :: "obj option \<Rightarrow> string \<times> obj \<Rightarrow> (jsval \<times> string \<times> jsval) list" where
  "ref_calls node fr =
     (case node of
        None \<Rightarrow> []
      | Some n \<Rightarrow>
         (if truthy (get_field n (fst fr)) \<and> truthy (get_field (snd fr) ''create'')
          then (case get_field n (fst fr) of
                  JArr vs \<Rightarrow> map (\<lambda>v'. (get_field (snd fr) ''typeName'', fst fr, v')) vs
                | v \<Rightarrow> [(get_field (snd fr) ''typeName'', fst fr, v)])
          else []))"

definition run_calls :: "host \<Rightarrow> state \<Rightarrow> (jsval \<times> string \<times> jsval) list \<Rightarrow> state" where
  "run_calls H s cs = foldl (\<lambda>s' c. addRefNode H (fst c) (fst (snd c)) (snd (snd c)) s') s cs"

definition settled :: "state \<Rightarrow> jsval \<times> string \<times> jsval \<Rightarrow> bool" where
  "settled s c =
     (cacheKey (fst c) (fst (snd c)) (snd (snd c)) \<in> refsCache s \<or> \<not> truthy (snd (snd c)))"

text \<open>
  The node at position \<open>k\<close> of a sorted array of references \<open>nodes\<close> into \<open>g\<close>, with the
  links that position calls for: \<open>next\<close> is the path of the node after it, if there is
  one, and \<open>prev\<close> the path of the node before it, if there is one.
\<close>

definition linked_node :: "nat list \<Rightarrow> obj list \<Rightarrow> nat \<Rightarrow> obj" where
  "linked_node nodes g k =
     (let n0 = g ! (nodes ! k);
          n1 = (if k + 1 < length nodes
                then set_field n0 ''next'' (get_field (g ! (nodes ! (k + 1))) ''path'') else n0)
      in if 0 < k then set_field n1 ''prev'' (get_field (g ! (nodes ! (k - 1))) ''path'') else n1)"

text \<open>A node without its links: what the sidebar pass does not write.\<close>

definition unlinked :: "obj \<Rightarrow> obj" where
  "unlinked n = filter (\<lambda>kv. fst kv \<noteq> ''next'' \<and> fst kv \<noteq> ''prev'') n"

section \<open>Lemmas\<close>

lemma split_slash_not_Nil [simp]: "split_slash s \<noteq> []"
  by (induction s) (auto split: list.splits)

lemma trimEnd_slash_keeps:
  assumes "s \<noteq> []" "last s \<noteq> CHR ''/''"
  shows "trimEnd_slash s = s"
  using assms by (cases s rule: rev_cases) (auto simp: trimEnd_slash_def)

lemma trimEnd_slash_last:
  "trimEnd_slash s = [] \<or> last (trimEnd_slash s) \<noteq> CHR ''/''"
proof (cases "dropWhile (\<lambda>c. c = CHR ''/'') (rev s)")
  case Nil
  then show ?thesis by (simp add: trimEnd_slash_def)
next
  case (Cons c cs)
  have "\<not> (\<lambda>c. c = CHR ''/'') (hd (dropWhile (\<lambda>c. c = CHR ''/'') (rev s)))"
    by (rule hd_dropWhile) (simp add: Cons)
  then show ?thesis by (simp add: trimEnd_slash_def Cons)
qed

lemma trim_slash_last: "trim_slash p = [] \<or> last (trim_slash p) \<noteq> CHR ''/''"
  unfolding trim_slash_def by (rule trimEnd_slash_last)

lemma join_slash_concat:
  "segs \<noteq> [] \<Longrightarrow> ''/'' @ join ''/'' segs = concat (map ((@) ''/'') segs)"
  by (induction "''/''" segs rule: join.induct) auto

lemma last_concat_slash:
  assumes "segs \<noteq> []" "last segs \<noteq> []"
  shows "last (concat (map ((@) ''/'') segs)) = last (last segs)"
  using assms by (induction segs) auto

lemma createPath_join:
  "createPath H opts dir name =
     (let res = trimEnd_slash (''/'' @ join ''/'' (path_segments H opts dir name));
          pathSuffix = (if trailingSlash H then ''/'' else [])
      in if res @ pathSuffix = [] then ''/'' else res @ pathSuffix)"
  by (simp add: createPath_def path_segments_def Let_def)

lemma path_segments_last:
  assumes slug: "\<And>s. CHR ''/'' \<notin> set (slugify H s)"
      and ne: "path_segments H opts dir name \<noteq> []"
  shows "last (path_segments H opts dir name) \<noteq> []
         \<and> last (last (path_segments H opts dir name)) \<noteq> CHR ''/''"
proof -
  let ?pre = "trim_slash (case pathPrefix opts of None \<Rightarrow> [] | Some p \<Rightarrow> p)"
  let ?l = "last (path_segments H opts dir name)"
  have each: "\<And>x. x \<in> set (path_segments H opts dir name) \<Longrightarrow>
      x \<noteq> [] \<and> (x = ?pre \<or> (\<exists>y. x = slugify H y))"
    by (auto simp: path_segments_def Let_def split: if_splits)
  have mem: "?l \<in> set (path_segments H opts dir name)"
    using ne by (rule last_in_set)
  have nonempty: "?l \<noteq> []"
    using each[OF mem] by blast
  have "?l = ?pre \<or> (\<exists>x. ?l = slugify H x)"
    using each[OF mem] by blast
  then show ?thesis
  proof
    assume "?l = ?pre"
    with nonempty trim_slash_last[of "case pathPrefix opts of None \<Rightarrow> [] | Some p \<Rightarrow> p"]
    show ?thesis by auto
  next
    assume "\<exists>x. ?l = slugify H x"
    then obtain x where x: "?l = slugify H x" by blast
    with nonempty have "last (slugify H x) \<in> set (slugify H x)" by simp
    with slug[of x] have "last (slugify H x) \<noteq> CHR ''/''" by metis
    with nonempty x show ?thesis by simp
  qed
qed

lemma createPath_general:
  assumes slug: "\<And>s. CHR ''/'' \<notin> set (slugify H s)"
  shows "createPath H opts dir name =
     (if path_segments H opts dir name = [] then ''/''
      else concat (map ((@) ''/'') (path_segments H opts dir name))
           @ (if trailingSlash H then ''/'' else []))"
proof (cases "path_segments H opts dir name = []")
  case True
  then show ?thesis by (simp add: createPath_join trimEnd_slash_def)
next
  case False
  let ?segs = "path_segments H opts dir name"
  have j: "''/'' @ join ''/'' ?segs = concat (map ((@) ''/'') ?segs)"
    using False by (rule join_slash_concat)
  have l: "last ?segs \<noteq> [] \<and> last (last ?segs) \<noteq> CHR ''/''"
    using slug False by (rule path_segments_last)
  have ne: "concat (map ((@) ''/'') ?segs) \<noteq> []"
    using False by (cases ?segs) auto
  have "last (concat (map ((@) ''/'') ?segs)) \<noteq> CHR ''/''"
    using last_concat_slash[OF False] l by simp
  with ne have "trimEnd_slash (concat (map ((@) ''/'') ?segs)) = concat (map ((@) ''/'') ?segs)"
    by (rule trimEnd_slash_keeps)
  with j ne False show ?thesis
    unfolding createPath_join Let_def by (simp del: append.simps)
qed

lemma example_slugify_no_slash: "CHR ''/'' \<notin> set (example_slugify s)"
  by (auto simp: example_slugify_def)

lemma createNodeOptions_other_depth:
  assumes "length (split_slash (dirname file)) \<noteq> 1"
      and "length (split_slash (dirname file)) \<noteq> 2"
  shows "isl (createNodeOptions H opts fs file)"
  using assms
  by (auto simp: createNodeOptions_def createDocInfo_def Let_def
           split: option.splits prod.splits)

lemma get_field_set_field [simp]:
  "get_field (set_field ob k v) k' = (if k' = k then v else get_field ob k')"
  by (induction ob) (auto simp: get_field_def)

lemma addRefNode_unfold:
  "addRefNode H tn f v s =
     (if cacheKey tn f v \<notin> refsCache s \<and> truthy v
      then s\<lparr>refsCache := insert (cacheKey tn f v) (refsCache s),
             store := (store s)(to_string tn := store s (to_string tn) @ [node_of H (stub v)])\<rparr>
      else s)"
  by (simp add: addRefNode_def addNode_def Let_def)

lemma addRefNode_this_refs [simp]: "this_refs (addRefNode H tn f v s) = this_refs s"
  by (simp add: addRefNode_unfold)

lemma addRefNode_cache_mono: "refsCache s \<subseteq> refsCache (addRefNode H tn f v s)"
  by (auto simp: addRefNode_unfold)

lemma addRefNode_settled: "settled s (tn, f, v) \<Longrightarrow> addRefNode H tn f v s = s"
  by (auto simp: addRefNode_unfold settled_def)

lemma addRefNode_settles: "settled (addRefNode H tn f v s) (tn, f, v)"
  by (auto simp: addRefNode_unfold settled_def)

lemma settled_mono: "refsCache s \<subseteq> refsCache s' \<Longrightarrow> settled s c \<Longrightarrow> settled s' c"
  by (auto simp: settled_def)

lemma addRefNode_store_append:
  "\<exists>ys. store (addRefNode H tn f v s) t = store s t @ ys"
  by (simp add: addRefNode_unfold)

lemma run_calls_Nil [simp]: "run_calls H s [] = s"
  by (simp add: run_calls_def)

lemma run_calls_Cons [simp]:
  "run_calls H s (c # cs) = run_calls H (addRefNode H (fst c) (fst (snd c)) (snd (snd c)) s) cs"
  by (simp add: run_calls_def)

lemma run_calls_append [simp]:
  "run_calls H s (cs @ ds) = run_calls H (run_calls H s cs) ds"
  by (simp add: run_calls_def)

lemma run_calls_this_refs [simp]: "this_refs (run_calls H s cs) = this_refs s"
  by (induction cs arbitrary: s) auto

lemma run_calls_cache_mono: "refsCache s \<subseteq> refsCache (run_calls H s cs)"
proof (induction cs arbitrary: s)
  case Nil
  then show ?case by simp
next
  case (Cons c cs)
  have "refsCache s \<subseteq> refsCache (addRefNode H (fst c) (fst (snd c)) (snd (snd c)) s)"
    by (rule addRefNode_cache_mono)
  also have "\<dots> \<subseteq> refsCache (run_calls H (addRefNode H (fst c) (fst (snd c)) (snd (snd c)) s) cs)"
    by (rule Cons.IH)
  finally show ?case by simp
qed

lemma run_calls_store_append: "\<exists>ys. store (run_calls H s cs) t = store s t @ ys"
proof (induction cs arbitrary: s)
  case Nil
  then show ?case by simp
next
  case (Cons c cs)
  obtain ys where ys: "store (addRefNode H (fst c) (fst (snd c)) (snd (snd c)) s) t = store s t @ ys"
    using addRefNode_store_append by blast
  obtain zs where "store (run_calls H (addRefNode H (fst c) (fst (snd c)) (snd (snd c)) s) cs) t
      = store (addRefNode H (fst c) (fst (snd c)) (snd (snd c)) s) t @ zs"
    using Cons.IH by blast
  with ys show ?case by simp
qed

lemma run_calls_settles: "c \<in> set cs \<Longrightarrow> settled (run_calls H s cs) c"
proof (induction cs arbitrary: s)
  case Nil
  then show ?case by simp
next
  case (Cons d cs)
  show ?case
  proof (cases "c \<in> set cs")
    case True
    then show ?thesis using Cons.IH by simp
  next
    case False
    with Cons.prems have "c = d" by simp
    then have "settled (addRefNode H (fst d) (fst (snd d)) (snd (snd d)) s) c"
      using addRefNode_settles[of H "fst d" "fst (snd d)" "snd (snd d)" s] by simp
    then show ?thesis
      using settled_mono[OF run_calls_cache_mono] by simp
  qed
qed

lemma run_calls_settled: "(\<And>c. c \<in> set cs \<Longrightarrow> settled s c) \<Longrightarrow> run_calls H s cs = s"
proof (induction cs)
  case Nil
  then show ?case by simp
next
  case (Cons d cs)
  have "settled s (fst d, fst (snd d), snd (snd d))" using Cons.prems[of d] by simp
  then have "addRefNode H (fst d) (fst (snd d)) (snd (snd d)) s = s"
    by (rule addRefNode_settled)
  then show ?case using Cons by simp
qed

lemma run_calls_idem: "run_calls H (run_calls H s cs) cs = run_calls H s cs"
  by (rule run_calls_settled) (rule run_calls_settles)

lemma createNodeRefs_field_calls:
  "createNodeRefs_field H node s fr = run_calls H s (ref_calls node fr)"
  by (auto simp: createNodeRefs_field_def ref_calls_def run_calls_def Let_def foldl_map
           split: option.splits jsval.splits)

lemma createNodeRefs_fold_calls:
  "foldl (createNodeRefs_field H node) s rs = run_calls H s (concat (map (ref_calls node) rs))"
  by (induction rs arbitrary: s) (auto simp: createNodeRefs_field_calls)

lemma createNodeRefs_calls:
  "createNodeRefs H node s = run_calls H s (concat (map (ref_calls node) (this_refs s)))"
  by (simp add: createNodeRefs_def createNodeRefs_fold_calls)

lemma createNodeRefs_this_refs [simp]: "this_refs (createNodeRefs H node s) = this_refs s"
  by (simp add: createNodeRefs_calls)

lemma createNodeRefs_cache_mono: "refsCache s \<subseteq> refsCache (createNodeRefs H node s)"
  by (simp add: createNodeRefs_calls run_calls_cache_mono)

lemma createNodeRefs_store_append: "\<exists>ys. store (createNodeRefs H node s) t = store s t @ ys"
  by (simp add: createNodeRefs_calls run_calls_store_append)

lemma createNodeRefs_idem:
  "createNodeRefs H node (createNodeRefs H node s) = createNodeRefs H node s"
  unfolding createNodeRefs_calls[of H node "run_calls H s (concat (map (ref_calls node) (this_refs s)))"]
    createNodeRefs_calls[of H node s]
  by (simp add: run_calls_idem)

lemma addNode_this_refs [simp]: "this_refs (snd (addNode H t ob s)) = this_refs s"
  by (simp add: addNode_def Let_def)

lemma addNode_refsCache [simp]: "refsCache (snd (addNode H t ob s)) = refsCache s"
  by (simp add: addNode_def Let_def)

lemma addNode_store:
  "store (snd (addNode H t ob s)) = (store s)(t := store s t @ [node_of H ob])"
  by (simp add: addNode_def Let_def)

lemma addNode_fst [simp]: "fst (addNode H t ob s) = node_of H ob"
  by (simp add: addNode_def Let_def)

lemma updateNode_this_refs [simp]: "this_refs (snd (updateNode H t ob s)) = this_refs s"
  by (simp add: updateNode_def Let_def)

lemma updateNode_refsCache [simp]: "refsCache (snd (updateNode H t ob s)) = refsCache s"
  by (simp add: updateNode_def Let_def)

lemma removeNode_this_refs [simp]: "this_refs (removeNode t p s) = this_refs s"
  by (simp add: removeNode_def)

lemma removeNode_refsCache [simp]: "refsCache (removeNode t p s) = refsCache s"
  by (simp add: removeNode_def)

lemma ingest_Inr:
  "ingest H opts fs file s = Inr s' \<longleftrightarrow>
     (\<exists>ob. createNodeOptions H opts fs file = Inr ob
        \<and> s' = createNodeRefs H (Some (node_of H ob)) (snd (addNode H (typeName opts) ob s)))"
  by (auto simp: ingest_def addNode_def Let_def split: sum.splits)

lemma ingest_Inl:
  "ingest H opts fs file s = Inl e \<longleftrightarrow> createNodeOptions H opts fs file = Inl e"
  by (auto simp: ingest_def Let_def split: sum.splits prod.splits)

lemma watch_change_Inr:
  "watch_change H opts fs file s = Inr s' \<longleftrightarrow>
     (\<exists>ob. createNodeOptions H opts fs (slash H file) = Inr ob
        \<and> s' = createNodeRefs H (fst (updateNode H (typeName opts) ob s))
                  (snd (updateNode H (typeName opts) ob s)))"
  by (auto simp: watch_change_def Let_def split: sum.splits prod.splits)

lemma ingest_cache_mono: "ingest H opts fs file s = Inr s' \<Longrightarrow> refsCache s \<subseteq> refsCache s'"
  using createNodeRefs_cache_mono[of "snd (addNode H (typeName opts) ob s)" for ob]
  by (auto simp: ingest_Inr)

lemma ingest_this_refs: "ingest H opts fs file s = Inr s' \<Longrightarrow> this_refs s' = this_refs s"
  by (auto simp: ingest_Inr)

lemma watch_change_cache_mono:
  "watch_change H opts fs file s = Inr s' \<Longrightarrow> refsCache s \<subseteq> refsCache s'"
  using createNodeRefs_cache_mono[of "snd (updateNode H (typeName opts) ob s)" for ob]
  by (auto simp: watch_change_Inr)

lemma watch_change_this_refs:
  "watch_change H opts fs file s = Inr s' \<Longrightarrow> this_refs s' = this_refs s"
  by (auto simp: watch_change_Inr)

lemma watch_unlink_refsCache [simp]: "refsCache (watch_unlink H opts file s) = refsCache s"
  by (simp add: watch_unlink_def Let_def)

lemma watch_unlink_this_refs [simp]: "this_refs (watch_unlink H opts file s) = this_refs s"
  by (simp add: watch_unlink_def Let_def)

lemma watch_event_cache_mono: "refsCache s \<subseteq> refsCache (watch_event H opts s fe)"
proof (cases fe)
  case (Pair fs ev)
  show ?thesis
  proof (cases ev)
    case (Add fl)
    with Pair show ?thesis
      by (auto simp: watch_add_def split: sum.splits dest: ingest_cache_mono)
  next
    case (Unlink fl)
    with Pair show ?thesis by simp
  next
    case (Change fl)
    with Pair show ?thesis
      by (auto split: sum.splits dest: watch_change_cache_mono)
  qed
qed

lemma watch_event_this_refs [simp]: "this_refs (watch_event H opts s fe) = this_refs s"
proof (cases fe)
  case (Pair fs ev)
  then show ?thesis
    by (cases ev)
       (auto simp: watch_add_def split: sum.splits dest: ingest_this_refs watch_change_this_refs)
qed

lemma watch_events_cache_mono: "refsCache s \<subseteq> refsCache (watch_events H opts evs s)"
proof (induction evs arbitrary: s)
  case Nil
  then show ?case by (simp add: watch_events_def)
next
  case (Cons fe evs)
  have "refsCache s \<subseteq> refsCache (watch_event H opts s fe)"
    by (rule watch_event_cache_mono)
  also have "\<dots> \<subseteq> refsCache (watch_events H opts evs (watch_event H opts s fe))"
    by (rule Cons.IH)
  finally show ?case by (simp add: watch_events_def)
qed

lemma watch_events_this_refs [simp]: "this_refs (watch_events H opts evs s) = this_refs s"
  by (induction evs arbitrary: s) (auto simp: watch_events_def)

lemma createNodes_units_snd_Cons:
  "snd (createNodes_units H opts fs (fl # files) s) =
     (case ingest H opts fs fl s of
        Inl e \<Rightarrow> snd (createNodes_units H opts fs files s)
      | Inr s1 \<Rightarrow> snd (createNodes_units H opts fs files s1))"
  by (simp split: sum.splits prod.splits)

lemma createNodes_units_fst_Cons:
  "fst (createNodes_units H opts fs (fl # files) s) =
     (case ingest H opts fs fl s of
        Inl e \<Rightarrow> e # fst (createNodes_units H opts fs files s)
      | Inr s1 \<Rightarrow> fst (createNodes_units H opts fs files s1))"
  by (simp split: sum.splits prod.splits)

lemma createNodes_units_cache_mono:
  "refsCache s \<subseteq> refsCache (snd (createNodes_units H opts fs files s))"
proof (induction files arbitrary: s)
  case Nil
  then show ?case by simp
next
  case (Cons fl files)
  show ?case
  proof (cases "ingest H opts fs fl s")
    case (Inl e)
    then show ?thesis using Cons.IH[of s] by (simp only: createNodes_units_snd_Cons sum.case)
  next
    case (Inr s1)
    then have "refsCache s \<subseteq> refsCache s1" by (rule ingest_cache_mono)
    also have "\<dots> \<subseteq> refsCache (snd (createNodes_units H opts fs files s1))" by (rule Cons.IH)
    finally show ?thesis using Inr by (simp only: createNodes_units_snd_Cons sum.case)
  qed
qed

lemma createNodes_units_this_refs [simp]:
  "this_refs (snd (createNodes_units H opts fs files s)) = this_refs s"
proof (induction files arbitrary: s)
  case Nil
  then show ?case by simp
next
  case (Cons fl files)
  then show ?case
    by (cases "ingest H opts fs fl s")
       (auto simp only: createNodes_units_snd_Cons sum.case dest: ingest_this_refs)
qed

lemma createNodes_snd: "snd (createNodes H opts fs files s) = snd (createNodes_units H opts fs files s)"
  by (simp add: createNodes_def split: prod.splits)

lemma foldl_keeps:
  assumes "\<And>a x. g (f a x) = g a"
  shows "g (foldl f a xs) = g a"
  using assms by (induction xs arbitrary: a) auto

lemma remove_first_keeps: "n \<in> set xs \<Longrightarrow> \<not> P n \<Longrightarrow> n \<in> set (remove_first P xs)"
  by (induction xs) auto

lemma remove_first_none: "\<not> list_ex P xs \<Longrightarrow> remove_first P xs = xs"
  by (induction xs) auto

lemma remove_first_split:
  "list_ex P xs \<Longrightarrow>
     \<exists>as n bs. xs = as @ n # bs \<and> P n \<and> \<not> list_ex P as \<and> remove_first P xs = as @ bs"
proof (induction xs)
  case Nil
  then show ?case by simp
next
  case (Cons x xs)
  show ?case
  proof (cases "P x")
    case True
    then have "x # xs = [] @ x # xs \<and> P x \<and> \<not> list_ex P [] \<and> remove_first P (x # xs) = [] @ xs"
      by simp
    then show ?thesis by blast
  next
    case False
    with Cons.prems have "list_ex P xs" by simp
    then obtain as n bs where
      "xs = as @ n # bs" "P n" "\<not> list_ex P as" "remove_first P xs = as @ bs"
      using Cons.IH by blast
    with False have "x # xs = (x # as) @ n # bs \<and> P n \<and> \<not> list_ex P (x # as)
        \<and> remove_first P (x # xs) = (x # as) @ bs"
      by simp
    then show ?thesis by blast
  qed
qed

lemma stub_no_origin [simp]: "\<not> has_origin p (stub v)"
  by (simp add: has_origin_def stub_def get_path2_def get_field_def)

lemma watch_unlink_store:
  "store (watch_unlink H opts fl s) =
     (store s)(typeName opts :=
        remove_first (has_origin (path_join H (context_dir H) (slash H fl))) (store s (typeName opts)))"
  by (simp add: watch_unlink_def removeNode_def Let_def)

lemma watch_unlink_keeps:
  assumes "n \<in> set (store s t)" "\<not> has_origin (path_join H (context_dir H) (slash H fl)) n"
  shows "n \<in> set (store (watch_unlink H opts fl s) t)"
  using assms by (auto simp: watch_unlink_store intro: remove_first_keeps)

lemma createSidebar_title_keeps:
  assumes "\<And>s f. g (s\<lparr>store := f\<rparr>) = g s"
  shows "g (snd (createSidebar_title H t vid s sb title)) = g s"
  by (simp add: createSidebar_title_def Let_def case_prod_beta assms)

lemma createSidebar_order_keeps:
  assumes st: "\<And>s f. g (s\<lparr>store := f\<rparr>) = g s"
  shows "g (snd (createSidebar_order H t vid s sb titles)) = g s"
proof (induction titles arbitrary: s sb)
  case Nil
  then show ?case by simp
next
  case (Cons title titles)
  obtain r s' where r: "createSidebar_title H t vid s sb title = (r, s')"
    by (cases "createSidebar_title H t vid s sb title")
  have "g s' = g s"
    using createSidebar_title_keeps[of g H t vid s sb title, OF st] r by simp
  then show ?case by (cases r) (simp_all add: r Cons.IH)
qed

lemma createSidebar_versions_keeps:
  assumes st: "\<And>s f. g (s\<lparr>store := f\<rparr>) = g s"
  shows "g (snd (createSidebar_versions H t s sb vos)) = g s"
proof (induction vos arbitrary: s sb)
  case Nil
  then show ?case by simp
next
  case (Cons vo vos)
  obtain r s' where r: "createSidebar_order H t (fst vo) s sb (snd vo) = (r, s')"
    by (cases "createSidebar_order H t (fst vo) s sb (snd vo)")
  have "g s' = g s"
    using createSidebar_order_keeps[of g H t "fst vo" s sb "snd vo", OF st] r by simp
  then show ?case by (cases r) (simp_all add: r Cons.IH)
qed

lemma createSidebar_keeps:
  assumes st: "\<And>s f. g (s\<lparr>store := f\<rparr>) = g s"
      and co: "\<And>s c. g (s\<lparr>collections := c\<rparr>) = g s"
  shows "g (createSidebar H opts s) = g s"
proof -
  let ?s0 = "s\<lparr>collections := collections s @ [''Sidebar'']\<rparr>"
  obtain r s1 where r: "createSidebar_versions H (typeName opts) ?s0 [] (sidebarOrder opts) = (r, s1)"
    by (cases "createSidebar_versions H (typeName opts) ?s0 [] (sidebarOrder opts)")
  have s1: "g s1 = g s"
    using createSidebar_versions_keeps[of g H "typeName opts" ?s0 "[]" "sidebarOrder opts", OF st] r co
    by simp
  have nodes: "\<And>kvs. g (foldl (\<lambda>s' kv. snd (addNode H ''Sidebar'' (sidebar_node kv) s')) s1 kvs) = g s1"
    by (rule foldl_keeps) (simp add: addNode_def Let_def st)
  show ?thesis
    by (cases r) (simp_all add: createSidebar_def createSidebar_run_def Let_def r s1 nodes)
qed

lemma createSidebar_refsCache [simp]: "refsCache (createSidebar H opts s) = refsCache s"
  by (rule createSidebar_keeps) simp_all

lemma createSidebar_this_refs [simp]: "this_refs (createSidebar H opts s) = this_refs s"
  by (rule createSidebar_keeps) simp_all

lemma unlink_events_keep:
  assumes "\<And>fe. fe \<in> set evs \<Longrightarrow>
             \<exists>fl. snd fe = Unlink fl \<and> \<not> has_origin (path_join H (context_dir H) (slash H fl)) n"
      and "n \<in> set (store s t)"
  shows "n \<in> set (store (watch_events H opts evs s) t)"
  using assms
proof (induction evs arbitrary: s)
  case Nil
  then show ?case by (simp add: watch_events_def)
next
  case (Cons fe evs)
  obtain fl where fl: "snd fe = Unlink fl"
      "\<not> has_origin (path_join H (context_dir H) (slash H fl)) n"
    using Cons.prems(1)[of fe] by auto
  then have "watch_event H opts s fe = watch_unlink H opts fl s"
    by (cases fe) simp
  moreover have "n \<in> set (store (watch_unlink H opts fl s) t)"
    using Cons.prems(2) fl(2) by (rule watch_unlink_keeps)
  ultimately have "n \<in> set (store (watch_events H opts evs (watch_event H opts s fe)) t)"
    using Cons.IH[of "watch_event H opts s fe"] Cons.prems(1) by simp
  then show ?case by (simp add: watch_events_def)
qed

lemma createCollections_this_refs [simp]:
  "this_refs (createCollections opts s) = normalizeRefs opts (refs opts)"
proof -
  have "\<And>a rs. this_refs (foldl createCollections_ref a rs) = this_refs a"
    by (rule foldl_keeps) (simp add: createCollections_ref_def Let_def)
  then show ?thesis by (simp add: createCollections_def Let_def)
qed

lemma createCollections_refsCache [simp]:
  "refsCache (createCollections opts s) = refsCache s"
proof -
  have "\<And>a rs. refsCache (foldl createCollections_ref a rs) = refsCache a"
    by (rule foldl_keeps) (simp add: createCollections_ref_def Let_def)
  then show ?thesis by (simp add: createCollections_def Let_def)
qed

lemma createCollections_store [simp]:
  "store (createCollections opts s) = store s"
proof -
  have "\<And>a rs. store (foldl createCollections_ref a rs) = store a"
    by (rule foldl_keeps) (simp add: createCollections_ref_def Let_def)
  then show ?thesis by (simp add: createCollections_def Let_def)
qed

lemma loadSource_unfold:
  "loadSource H opts fs files s =
     (case fst (createNodes H opts fs files (createCollections opts s)) of
        Inl e \<Rightarrow> (Inl e, snd (createNodes H opts fs files (createCollections opts s)))
      | Inr u \<Rightarrow> createSidebar_run H opts (snd (createNodes H opts fs files (createCollections opts s))))"
  by (simp add: loadSource_def Let_def case_prod_beta)

lemma loadSource_snd:
  "snd (loadSource H opts fs files s) =
     (case fst (createNodes H opts fs files (createCollections opts s)) of
        Inl e \<Rightarrow> snd (createNodes H opts fs files (createCollections opts s))
      | Inr u \<Rightarrow> createSidebar H opts (snd (createNodes H opts fs files (createCollections opts s))))"
  by (simp add: loadSource_unfold createSidebar_def split: sum.splits)

lemma loadSource_this_refs [simp]:
  "this_refs (snd (loadSource H opts fs files s)) = normalizeRefs opts (refs opts)"
  by (simp add: loadSource_snd createNodes_snd split: sum.splits)

lemma loadSource_cache_mono:
  "refsCache s \<subseteq> refsCache (snd (loadSource H opts fs files s))"
proof -
  have "refsCache s \<subseteq> refsCache (snd (createNodes H opts fs files (createCollections opts s)))"
    using createNodes_units_cache_mono[of "createCollections opts s" H opts fs files]
    by (simp add: createNodes_snd)
  then show ?thesis
    by (simp add: loadSource_snd split: sum.splits)
qed

lemma normalizeRefs_keys: "map fst (normalizeRefs opts rs) = map fst rs"
  by (induction rs) (auto simp: normalizeRefs_def)

lemma normalizeRefs_values: "map snd (normalizeRefs opts rs) = map (\<lambda>kr. normalizeRef opts (snd kr)) rs"
  by (induction rs) (auto simp: normalizeRefs_def)

lemma ingest_isl: "isl (ingest H opts fs fl s) = isl (createNodeOptions H opts fs fl)"
  by (auto simp: ingest_def Let_def case_prod_beta split: sum.splits)

lemma ingest_store_append:
  assumes "ingest H opts fs fl s = Inr s'"
  shows "\<exists>ys. store s' t = store s t @ ys"
proof -
  obtain ob where ob: "createNodeOptions H opts fs fl = Inr ob"
      "s' = createNodeRefs H (Some (node_of H ob)) (snd (addNode H (typeName opts) ob s))"
    using assms by (auto simp: ingest_Inr)
  obtain ys where "store s' t = store (snd (addNode H (typeName opts) ob s)) t @ ys"
    using ob(2) createNodeRefs_store_append by blast
  then show ?thesis by (cases "t = typeName opts") (simp_all add: addNode_store)
qed

lemma ingest_adds_node:
  assumes "ingest H opts fs fl s = Inr s'" "createNodeOptions H opts fs fl = Inr ob"
  shows "node_of H ob \<in> set (store s' (typeName opts))"
proof -
  have s': "s' = createNodeRefs H (Some (node_of H ob)) (snd (addNode H (typeName opts) ob s))"
    using assms by (auto simp: ingest_Inr)
  obtain ys where "store s' (typeName opts) = store (snd (addNode H (typeName opts) ob s)) (typeName opts) @ ys"
    using s' createNodeRefs_store_append by blast
  then show ?thesis by (simp add: addNode_store)
qed

lemma createNodes_units_store_append:
  "\<exists>ys. store (snd (createNodes_units H opts fs files s)) t = store s t @ ys"
proof (induction files arbitrary: s)
  case Nil
  then show ?case by simp
next
  case (Cons fl files)
  show ?case
  proof (cases "ingest H opts fs fl s")
    case (Inl e)
    then show ?thesis using Cons.IH[of s] by (simp only: createNodes_units_snd_Cons sum.case)
  next
    case (Inr s1)
    obtain ys where ys: "store s1 t = store s t @ ys"
      using ingest_store_append[OF Inr] by blast
    obtain zs where "store (snd (createNodes_units H opts fs files s1)) t = store s1 t @ zs"
      using Cons.IH[of s1] by blast
    with ys have "store (snd (createNodes_units H opts fs files s1)) t = store s t @ (ys @ zs)"
      by simp
    then show ?thesis using Inr by (simp only: createNodes_units_snd_Cons sum.case) blast
  qed
qed

lemma createNodes_units_adds_node:
  assumes "fl \<in> set files" "createNodeOptions H opts fs fl = Inr ob"
  shows "node_of H ob \<in> set (store (snd (createNodes_units H opts fs files s)) (typeName opts))"
  using assms(1)
proof (induction files arbitrary: s)
  case Nil
  then show ?case by simp
next
  case (Cons g files)
  show ?case
  proof (cases "fl = g")
    case True
    then obtain s1 where s1: "ingest H opts fs g s = Inr s1"
      using assms(2) by (cases "ingest H opts fs g s") (auto simp: ingest_Inl)
    then have "node_of H ob \<in> set (store s1 (typeName opts))"
      using assms(2) True by (auto intro: ingest_adds_node)
    moreover obtain ys where
        "store (snd (createNodes_units H opts fs files s1)) (typeName opts) = store s1 (typeName opts) @ ys"
      using createNodes_units_store_append by blast
    ultimately show ?thesis using s1 by (simp only: createNodes_units_snd_Cons sum.case) simp
  next
    case False
    with Cons.prems have "fl \<in> set files" by simp
    then show ?thesis
      using Cons.IH by (cases "ingest H opts fs g s") (simp_all only: createNodes_units_snd_Cons sum.case)
  qed
qed

lemma createNodes_units_skip_failed:
  "snd (createNodes_units H opts fs files s)
     = snd (createNodes_units H opts fs (filter (\<lambda>f. \<not> isl (createNodeOptions H opts fs f)) files) s)"
proof (induction files arbitrary: s)
  case Nil
  then show ?case by simp
next
  case (Cons g files)
  show ?case
  proof (cases "ingest H opts fs g s")
    case (Inl e)
    then have "isl (createNodeOptions H opts fs g)" by (simp add: ingest_Inl)
    then show ?thesis using Inl Cons.IH[of s] by (simp only: createNodes_units_snd_Cons sum.case filter.simps) simp
  next
    case (Inr s1)
    then have "\<not> isl (createNodeOptions H opts fs g)"
      using ingest_isl[of H opts fs g s] by simp
    then show ?thesis using Inr Cons.IH[of s1] by (simp only: createNodes_units_snd_Cons sum.case filter.simps) simp
  qed
qed

lemma createNodes_units_errors:
  "fst (createNodes_units H opts fs files s) = [] \<longleftrightarrow>
     \<not> list_ex (\<lambda>f. isl (createNodeOptions H opts fs f)) files"
proof (induction files arbitrary: s)
  case Nil
  then show ?case by simp
next
  case (Cons g files)
  show ?case
  proof (cases "ingest H opts fs g s")
    case (Inl e)
    then have "isl (createNodeOptions H opts fs g)" by (simp add: ingest_Inl)
    then show ?thesis using Inl by (simp only: createNodes_units_fst_Cons sum.case) simp
  next
    case (Inr s1)
    then have "\<not> isl (createNodeOptions H opts fs g)"
      using ingest_isl[of H opts fs g s] by simp
    then show ?thesis using Inr Cons.IH[of s1] by (simp only: createNodes_units_fst_Cons sum.case) simp
  qed
qed

lemma createNodes_fst_isl:
  "isl (fst (createNodes H opts fs files s)) \<longleftrightarrow> list_ex (\<lambda>f. isl (createNodeOptions H opts fs f)) files"
  using createNodes_units_errors[of H opts fs files s]
  by (auto simp: createNodes_def case_prod_beta split: list.splits)

lemma createNodes_fst_first:
  "fst (createNodes H opts fs files s) =
     (case find (\<lambda>f. isl (createNodeOptions H opts fs f)) files of
        None \<Rightarrow> Inr ()
      | Some f \<Rightarrow> Inl (projl (createNodeOptions H opts fs f)))"
proof -
  have "(case fst (createNodes_units H opts fs files s) of [] \<Rightarrow> Inr () | e # es \<Rightarrow> Inl e) =
     (case find (\<lambda>f. isl (createNodeOptions H opts fs f)) files of
        None \<Rightarrow> Inr ()
      | Some f \<Rightarrow> Inl (projl (createNodeOptions H opts fs f)))"
  proof (induction files arbitrary: s)
    case Nil
    then show ?case by simp
  next
    case (Cons g files)
    show ?case
    proof (cases "ingest H opts fs g s")
      case (Inl e)
      then have "createNodeOptions H opts fs g = Inl e" by (simp add: ingest_Inl)
      then show ?thesis using Inl by (simp only: createNodes_units_fst_Cons sum.case) simp
    next
      case (Inr s1)
      then have "\<not> isl (createNodeOptions H opts fs g)"
        using ingest_isl[of H opts fs g s] by simp
      then show ?thesis
        using Inr Cons.IH[of s1] by (simp only: createNodes_units_fst_Cons sum.case) simp
    qed
  qed
  then show ?thesis by (simp add: createNodes_def case_prod_beta)
qed

lemma createNodeOptions_origin:
  assumes "createNodeOptions H opts fs fl = Inr ob"
  shows "has_origin (path_join H (context_dir H) fl) ob"
  using assms
  by (auto simp: createNodeOptions_def has_origin_def get_path2_def get_field_def Let_def
           split: option.splits prod.splits)

lemma createNodeOptions_id:
  assumes "createNodeOptions H opts fs fl = Inr ob"
  shows "get_field ob ''id'' = JStr (createUid H (path_relative H (context_dir H) fl))"
  using assms
  by (auto simp: createNodeOptions_def get_field_def Let_def split: option.splits prod.splits)

lemma state_store_same [simp]: "s\<lparr>store := (store s)(t := store s t)\<rparr> = s"
  by simp

lemma replace_first_same:
  "\<not> list_ex P as \<Longrightarrow> P n \<Longrightarrow> replace_first P n (as @ n # bs) = as @ n # bs"
  by (induction as) auto

lemma replace_first_split:
  "list_ex P xs \<Longrightarrow>
     \<exists>as n bs. xs = as @ n # bs \<and> P n \<and> \<not> list_ex P as \<and> replace_first P y xs = as @ y # bs"
proof (induction xs)
  case Nil
  then show ?case by simp
next
  case (Cons x xs)
  show ?case
  proof (cases "P x")
    case True
    then have "x # xs = [] @ x # xs \<and> P x \<and> \<not> list_ex P []
        \<and> replace_first P y (x # xs) = [] @ y # xs"
      by simp
    then show ?thesis by blast
  next
    case False
    with Cons.prems have "list_ex P xs" by simp
    then obtain as n bs where
      "xs = as @ n # bs" "P n" "\<not> list_ex P as" "replace_first P y xs = as @ y # bs"
      using Cons.IH by blast
    with False have "x # xs = (x # as) @ n # bs \<and> P n \<and> \<not> list_ex P (x # as)
        \<and> replace_first P y (x # xs) = (x # as) @ y # bs"
      by simp
    then show ?thesis by blast
  qed
qed

lemma watch_change_found:
  assumes "createNodeOptions H opts fs (slash H fl) = Inr ob"
      and "list_ex (\<lambda>n. get_field n ''id'' = get_field ob ''id'') (store s (typeName opts))"
  shows "watch_change H opts fs fl s =
     Inr (createNodeRefs H (Some (node_of H ob))
            (s\<lparr>store := (store s)(typeName opts :=
                 replace_first (\<lambda>n. get_field n ''id'' = get_field ob ''id'') (node_of H ob)
                   (store s (typeName opts)))\<rparr>))"
  using assms by (simp add: watch_change_def updateNode_def Let_def)

lemma change_after_add:
  assumes add: "watch_add H opts fs fl s = Inr s'"
      and keeps: "\<And>ob'. get_field (node_of H ob') ''id'' = get_field ob' ''id''"
      and fresh: "\<not> list_ex (\<lambda>n. get_field n ''id''
            = JStr (createUid H (path_relative H (context_dir H) (slash H fl))))
          (store s (typeName opts))"
  shows "watch_change H opts fs fl s' = Inr s'"
proof -
  let ?t = "typeName opts"
  obtain ob where ob: "createNodeOptions H opts fs (slash H fl) = Inr ob"
      and s': "s' = createNodeRefs H (Some (node_of H ob)) (snd (addNode H ?t ob s))"
    using add by (auto simp: watch_add_def ingest_Inr)
  let ?same = "\<lambda>n. get_field n ''id'' = get_field ob ''id''"
  have idv: "get_field ob ''id'' = JStr (createUid H (path_relative H (context_dir H) (slash H fl)))"
    using ob by (rule createNodeOptions_id)
  have fresh': "\<not> list_ex ?same (store s ?t)" using fresh by (simp add: idv)
  have same: "?same (node_of H ob)" by (rule keeps)
  obtain ys where "store s' ?t = store (snd (addNode H ?t ob s)) ?t @ ys"
    using s' createNodeRefs_store_append by blast
  then have g: "store s' ?t = store s ?t @ node_of H ob # ys"
    by (simp add: addNode_store)
  have found: "list_ex ?same (store s' ?t)"
    using g same by simp
  have "replace_first ?same (node_of H ob) (store s' ?t) = store s' ?t"
    unfolding g using fresh' same by (rule replace_first_same)
  then have "watch_change H opts fs fl s' = Inr (createNodeRefs H (Some (node_of H ob)) s')"
    using watch_change_found[OF ob found] by simp
  moreover have "createNodeRefs H (Some (node_of H ob)) s' = s'"
    unfolding s' by (rule createNodeRefs_idem)
  ultimately show ?thesis by simp
qed

text \<open>
  The links that \<open>sortSection\<close> writes, whatever order the engine's sort returns (the
  references it returns being distinct references into the collection): the node at
  each position of the sorted array ends up as \<open>linked_node\<close> describes, so each
  adjacent pair points at each other's path, the first node keeps the \<open>prev\<close> it had and
  the last the \<open>next\<close> it had.
\<close>

lemma linked_node_path [simp]:
  "get_field (linked_node ns g k) ''path'' = get_field (g ! (ns ! k)) ''path''"
  by (simp add: linked_node_def Let_def)

lemma link_step_at:
  assumes m: "m < length ns" and d: "distinct ns" and r: "\<And>i. i \<in> set ns \<Longrightarrow> i < length g"
      and len: "length gm = length g"
      and prior: "\<And>k. k < m \<Longrightarrow> gm ! (ns ! k) = linked_node ns g k"
      and rest: "\<And>j. j \<notin> set (take m ns) \<Longrightarrow> gm ! j = g ! j"
  shows "length (link_step ns gm m) = length g"
    and "link_step ns gm m ! (ns ! m) = linked_node ns g m"
    and "\<And>j. j \<noteq> ns ! m \<Longrightarrow> link_step ns gm m ! j = gm ! j"
proof -
  let ?node = "ns ! m"
  have node_lt: "?node < length gm" using m r len by simp
  have notin: "\<And>k. m \<le> k \<Longrightarrow> k < length ns \<Longrightarrow> ns ! k \<notin> set (take m ns)"
  proof
    fix k assume k: "m \<le> k" "k < length ns" and "ns ! k \<in> set (take m ns)"
    then obtain i where i: "i < m" "i < length ns" "take m ns ! i = ns ! k"
      by (auto simp: in_set_conv_nth)
    then have "ns ! i = ns ! k" by simp
    with d i k have "i = k" by (simp add: nth_eq_iff_index_eq)
    with i k show False by simp
  qed
  have cur: "gm ! ?node = g ! ?node" using rest notin[of m] m by simp
  have nxt: "m + 1 < length ns \<Longrightarrow> gm ! (ns ! (m + 1)) = g ! (ns ! (m + 1))"
    using rest notin[of "m + 1"] by simp
  have prv_ne: "0 < m \<Longrightarrow> ns ! (m - 1) \<noteq> ?node"
    using d m by (simp add: nth_eq_iff_index_eq)
  have prv: "0 < m \<Longrightarrow> get_field (gm ! (ns ! (m - 1))) ''path'' = get_field (g ! (ns ! (m - 1))) ''path''"
    using prior[of "m - 1"] by simp
  show "length (link_step ns gm m) = length g"
    using len by (simp add: link_step_def Let_def)
  show "link_step ns gm m ! (ns ! m) = linked_node ns g m"
    using node_lt cur nxt prv prv_ne
    by (cases "0 < m"; cases "m + 1 < length ns")
       (simp_all add: link_step_def linked_node_def Let_def)
  show "\<And>j. j \<noteq> ns ! m \<Longrightarrow> link_step ns gm m ! j = gm ! j"
    by (auto simp: link_step_def Let_def)
qed

lemma link_steps_upto:
  assumes d: "distinct ns" and r: "\<And>i. i \<in> set ns \<Longrightarrow> i < length g" and m: "m \<le> length ns"
  shows "length (foldl (link_step ns) g [0..<m]) = length g
       \<and> (\<forall>k<m. foldl (link_step ns) g [0..<m] ! (ns ! k) = linked_node ns g k)
       \<and> (\<forall>j. j \<notin> set (take m ns) \<longrightarrow> foldl (link_step ns) g [0..<m] ! j = g ! j)"
  using m
proof (induction m)
  case 0
  then show ?case by simp
next
  case (Suc m)
  let ?gm = "foldl (link_step ns) g [0..<m]"
  have m: "m < length ns" using Suc.prems by simp
  have ih: "length ?gm = length g"
      "\<And>k. k < m \<Longrightarrow> ?gm ! (ns ! k) = linked_node ns g k"
      "\<And>j. j \<notin> set (take m ns) \<Longrightarrow> ?gm ! j = g ! j"
    using Suc.IH m by auto
  note st = link_step_at[OF m d r ih]
  have tk: "set (take (Suc m) ns) = insert (ns ! m) (set (take m ns))"
    using m by (simp add: take_Suc_conv_app_nth)
  have f: "foldl (link_step ns) g [0..<Suc m] = link_step ns ?gm m" by simp
  have a: "length (link_step ns ?gm m) = length g" by (rule st(1)) 
  have b: "\<forall>k<Suc m. link_step ns ?gm m ! (ns ! k) = linked_node ns g k"
  proof (intro allI impI)
    fix k assume k: "k < Suc m"
    show "link_step ns ?gm m ! (ns ! k) = linked_node ns g k"
    proof (cases "k = m")
      case True
      then show ?thesis using st(2) by simp
    next
      case False
      with k have km: "k < m" by simp
      then have "ns ! k \<noteq> ns ! m" using d m by (simp add: nth_eq_iff_index_eq)
      then show ?thesis using st(3)[of "ns ! k"] ih(2)[OF km] by simp
    qed
  qed
  have c: "\<forall>j. j \<notin> set (take (Suc m) ns) \<longrightarrow> link_step ns ?gm m ! j = g ! j"
    using st(3) ih(3) tk by auto
  show ?case unfolding f using a b c by blast
qed

lemma sortSection_links:
  assumes "distinct (array_sort H (\<lambda>a b. weight_order H (g ! a) (g ! b)) nodes)"
      and "\<And>i. i \<in> set (array_sort H (\<lambda>a b. weight_order H (g ! a) (g ! b)) nodes) \<Longrightarrow> i < length g"
      and "k < length (snd (sortSection H g nodes))"
  shows "fst (sortSection H g nodes) ! (snd (sortSection H g nodes) ! k)
           = linked_node (snd (sortSection H g nodes)) g k"
proof -
  let ?ns = "array_sort H (\<lambda>a b. weight_order H (g ! a) (g ! b)) nodes"
  have s: "sortSection H g nodes = (foldl (link_step ?ns) g [0..<length ?ns], ?ns)"
    by (simp add: sortSection_def Let_def)
  have "\<forall>k<length ?ns. foldl (link_step ?ns) g [0..<length ?ns] ! (?ns ! k) = linked_node ?ns g k"
    using link_steps_upto[OF assms(1) assms(2), of "length ?ns"] by simp
  then show ?thesis using assms(3) by (simp add: s)
qed

lemma linked_node_next:
  "get_field (linked_node ns g k) ''next'' =
     (if k + 1 < length ns then get_field (g ! (ns ! (k + 1))) ''path''
      else get_field (g ! (ns ! k)) ''next'')"
  by (simp add: linked_node_def Let_def)

lemma linked_node_prev:
  "get_field (linked_node ns g k) ''prev'' =
     (if 0 < k then get_field (g ! (ns ! (k - 1))) ''path''
      else get_field (g ! (ns ! k)) ''prev'')"
  by (simp add: linked_node_def Let_def)

text \<open>
  What a change event recomputes and what the sidebar pass leaves alone: the record is
  fixed by the file's location and content, the sidebar pass writes nothing but links,
  and a change puts the node of the recomputed record in the place of the node it
  addresses.
\<close>

lemma unlinked_set_field:
  "k = ''next'' \<or> k = ''prev'' \<Longrightarrow> unlinked (set_field n k v) = unlinked n"
  by (induction n) (auto simp: unlinked_def)

lemma get_field_unlinked:
  "k \<noteq> ''next'' \<Longrightarrow> k \<noteq> ''prev'' \<Longrightarrow> get_field (unlinked n) k = get_field n k"
  by (induction n) (auto simp: unlinked_def get_field_def)

lemma unlinked_eq_field:
  assumes "unlinked n = unlinked m" "k \<noteq> ''next''" "k \<noteq> ''prev''"
  shows "get_field n k = get_field m k"
  using assms get_field_unlinked[of k n] get_field_unlinked[of k m] by simp

lemma unlinked_eq_path2:
  assumes "unlinked n = unlinked m" "a \<noteq> ''next''" "a \<noteq> ''prev''"
  shows "get_path2 n a b = get_path2 m a b"
  using unlinked_eq_field[OF assms] by (simp add: get_path2_def)

lemma map_unlinked_update:
  assumes "k = ''next'' \<or> k = ''prev''"
  shows "map unlinked (g[j := set_field (g ! j) k v]) = map unlinked g"
proof (cases "j < length g")
  case True
  have "map unlinked (g[j := set_field (g ! j) k v]) = (map unlinked g)[j := unlinked (g ! j)]"
    using assms by (simp add: map_update unlinked_set_field)
  also have "\<dots> = map unlinked g"
    using True by (simp add: list_update_same_conv)
  finally show ?thesis .
next
  case False
  then have "length g \<le> j" by simp
  then show ?thesis by (simp add: list_update_beyond)
qed

lemma map_unlinked_next:
  "map unlinked (g[j := set_field (g ! j) ''next'' v]) = map unlinked g"
  by (rule map_unlinked_update) simp

lemma map_unlinked_prev:
  "map unlinked (g[j := set_field (g ! j) ''prev'' v]) = map unlinked g"
  by (rule map_unlinked_update) simp

lemma link_step_unlinked: "map unlinked (link_step ns g i) = map unlinked g"
proof -
  define g1 where "g1 = (if i + 1 < length ns
      then g[ns ! i := set_field (g ! (ns ! i)) ''next'' (get_field (g ! (ns ! (i + 1))) ''path'')]
      else g)"
  have a: "map unlinked g1 = map unlinked g"
  proof (cases "i + 1 < length ns")
    case True
    then have "g1 = g[ns ! i := set_field (g ! (ns ! i)) ''next'' (get_field (g ! (ns ! (i + 1))) ''path'')]"
      by (simp only: g1_def if_True)
    then show ?thesis by (simp only: map_unlinked_next)
  next
    case False
    then show ?thesis by (simp only: g1_def if_False)
  qed
  have l: "link_step ns g i =
      (if 0 < i then g1[ns ! i := set_field (g1 ! (ns ! i)) ''prev'' (get_field (g1 ! (ns ! (i - 1))) ''path'')]
       else g1)"
    by (simp only: link_step_def Let_def g1_def)
  show ?thesis
  proof (cases "0 < i")
    case True
    then have "link_step ns g i
        = g1[ns ! i := set_field (g1 ! (ns ! i)) ''prev'' (get_field (g1 ! (ns ! (i - 1))) ''path'')]"
      by (simp only: l if_True)
    then show ?thesis using a by (simp only: map_unlinked_prev)
  next
    case False
    then show ?thesis using a by (simp only: l if_False)
  qed
qed

lemma link_steps_unlinked: "map unlinked (foldl (link_step ns) g is) = map unlinked g"
  by (induction "is" arbitrary: g) (simp_all add: link_step_unlinked)

lemma sortSection_unlinked: "map unlinked (fst (sortSection H g nodes)) = map unlinked g"
  by (simp add: sortSection_def Let_def link_steps_unlinked)

lemma createSidebar_title_unlinked:
  "map unlinked (store (snd (createSidebar_title H t vid s sb title)) t') = map unlinked (store s t')"
  using sortSection_unlinked[of H "store s t" "findNodes (store s t) title vid"]
  by (simp add: createSidebar_title_def Let_def case_prod_beta)

lemma createSidebar_order_unlinked:
  "map unlinked (store (snd (createSidebar_order H t vid s sb titles)) t') = map unlinked (store s t')"
proof (induction titles arbitrary: s sb)
  case Nil
  then show ?case by simp
next
  case (Cons title titles)
  obtain r s' where r: "createSidebar_title H t vid s sb title = (r, s')"
    by (cases "createSidebar_title H t vid s sb title")
  have "map unlinked (store s' t') = map unlinked (store s t')"
    using createSidebar_title_unlinked[of H t vid s sb title t'] r by simp
  then show ?case by (cases r) (simp_all add: r Cons.IH)
qed

lemma createSidebar_versions_unlinked:
  "map unlinked (store (snd (createSidebar_versions H t s sb vos)) t') = map unlinked (store s t')"
proof (induction vos arbitrary: s sb)
  case Nil
  then show ?case by simp
next
  case (Cons vo vos)
  obtain r s' where r: "createSidebar_order H t (fst vo) s sb (snd vo) = (r, s')"
    by (cases "createSidebar_order H t (fst vo) s sb (snd vo)")
  have "map unlinked (store s' t') = map unlinked (store s t')"
    using createSidebar_order_unlinked[of H t "fst vo" s sb "snd vo" t'] r by simp
  then show ?case by (cases r) (simp_all add: r Cons.IH)
qed

lemma addNodes_store_append:
  "\<exists>ys. store (foldl (\<lambda>s' kv. snd (addNode H t (f kv) s')) s kvs) t' = store s t' @ ys"
proof (induction kvs arbitrary: s)
  case Nil
  then show ?case by simp
next
  case (Cons kv kvs)
  obtain ys where "store (foldl (\<lambda>s' kv. snd (addNode H t (f kv) s')) (snd (addNode H t (f kv) s)) kvs) t'
      = store (snd (addNode H t (f kv) s)) t' @ ys"
    using Cons.IH by blast
  then show ?case by (cases "t' = t") (simp_all add: addNode_store)
qed

lemma createSidebar_unlinked:
  "\<exists>ys. map unlinked (store (createSidebar H opts s) t') = map unlinked (store s t') @ ys"
proof -
  let ?s0 = "s\<lparr>collections := collections s @ [''Sidebar'']\<rparr>"
  obtain r s1 where r: "createSidebar_versions H (typeName opts) ?s0 [] (sidebarOrder opts) = (r, s1)"
    by (cases "createSidebar_versions H (typeName opts) ?s0 [] (sidebarOrder opts)")
  have s1: "map unlinked (store s1 t') = map unlinked (store s t')"
    using createSidebar_versions_unlinked[of H "typeName opts" ?s0 "[]" "sidebarOrder opts" t'] r
    by simp
  show ?thesis
  proof (cases r)
    case (Inl e)
    then show ?thesis by (simp add: createSidebar_def createSidebar_run_def Let_def r s1)
  next
    case (Inr sb)
    obtain ys where "store (foldl (\<lambda>s' kv. snd (addNode H ''Sidebar'' (sidebar_node kv) s')) s1 (enum_order sb)) t'
        = store s1 t' @ ys"
      using addNodes_store_append by blast
    then show ?thesis
      using Inr by (simp add: createSidebar_def createSidebar_run_def Let_def r s1)
  qed
qed

lemma createNodeOptions_record:
  assumes "createNodeOptions H opts fs fl = Inr ob"
  shows "\<exists>content docInfo. fs (path_join H (context_dir H) fl) = Some content
      \<and> createDocInfo fl = Some docInfo
      \<and> ob = [(''id'', JStr (createUid H (path_relative H (context_dir H) fl))),
              (''path'', JStr (createPath H opts (fst (path_parse H fl)) (fst (snd (path_parse H fl))))),
              (''fileInfo'', JObj [(''extension'', JStr (snd (snd (path_parse H fl)))),
                                   (''directory'', JStr (fst (path_parse H fl))),
                                   (''path'', JStr fl),
                                   (''name'', JStr (fst (snd (path_parse H fl))))]),
              (''version'', get_field docInfo ''version''),
              (''section'', get_field docInfo ''section''),
              (''internal'', JObj [(''mimeType'', JStr (case mime_lookup H fl of
                                       None \<Rightarrow> ''application/x-'' @ remove1 (CHR ''.'') (snd (snd (path_parse H fl)))
                                     | Some m \<Rightarrow> if m = [] then ''application/x-'' @ remove1 (CHR ''.'') (snd (snd (path_parse H fl))) else m)),
                                   (''content'', JStr content),
                                   (''origin'', JStr (path_join H (context_dir H) fl))])]"
  using assms
  by (auto simp: createNodeOptions_def Let_def case_prod_beta split: option.splits)

lemma createNodeOptions_local:
  assumes "fsb (path_join H (context_dir H) fl) = fsa (path_join H (context_dir H) fl)"
  shows "createNodeOptions H opts fsb fl = createNodeOptions H opts fsa fl"
  using assms by (simp add: createNodeOptions_def Let_def)

lemma replace_first_at:
  "\<not> list_ex P as \<Longrightarrow> P n \<Longrightarrow> replace_first P y (as @ n # bs) = as @ y # bs"
  by (induction as) auto

lemma watch_change_in_place:
  assumes ob: "createNodeOptions H opts fs (slash H fl) = Inr ob"
      and g: "store s (typeName opts) = as @ n # bs"
      and n: "get_field n ''id'' = get_field ob ''id''"
      and as: "\<not> list_ex (\<lambda>m. get_field m ''id'' = get_field ob ''id'') as"
  shows "\<exists>s' ys. watch_change H opts fs fl s = Inr s'
           \<and> store s' (typeName opts) = as @ node_of H ob # bs @ ys"
proof -
  let ?same = "\<lambda>m. get_field m ''id'' = get_field ob ''id''"
  let ?s1 = "s\<lparr>store := (store s)(typeName opts := replace_first ?same (node_of H ob) (store s (typeName opts)))\<rparr>"
  have found: "list_ex ?same (store s (typeName opts))" using g n by simp
  have w: "watch_change H opts fs fl s = Inr (createNodeRefs H (Some (node_of H ob)) ?s1)"
    using ob found by (rule watch_change_found)
  have r: "store ?s1 (typeName opts) = as @ node_of H ob # bs"
    using replace_first_at[of ?same as n "node_of H ob" bs] as n g by simp
  obtain ys where "store (createNodeRefs H (Some (node_of H ob)) ?s1) (typeName opts)
      = store ?s1 (typeName opts) @ ys"
    using createNodeRefs_store_append by blast
  with r have "store (createNodeRefs H (Some (node_of H ob)) ?s1) (typeName opts)
      = as @ node_of H ob # bs @ ys" by simp
  with w show ?thesis by blast
qed

lemma list_ex_id_unlinked:
  "list_ex (\<lambda>m. get_field m ''id'' = v) xs
     = list_ex (\<lambda>u. get_field u ''id'' = v) (map unlinked xs)"
  by (induction xs) (simp_all add: get_field_unlinked)

lemma change_unchanged_file:
  assumes ob: "createNodeOptions H opts fsa (slash H fl) = Inr ob"
      and same: "fsb (path_join H (context_dir H) (slash H fl))
                   = fsa (path_join H (context_dir H) (slash H fl))"
      and g: "store s (typeName opts) = as @ n # bs"
      and n: "get_field n ''id'' = get_field ob ''id''"
      and as: "\<not> list_ex (\<lambda>m. get_field m ''id'' = get_field ob ''id'') as"
      and orig: "unlinked n = unlinked (node_of H ob)"
  shows "\<exists>s' ys. watch_change H opts fsb fl s = Inr s'
           \<and> store s' (typeName opts) = as @ node_of H ob # bs @ ys
           \<and> get_field (node_of H ob) ''path'' = get_field n ''path''
           \<and> get_path2 (node_of H ob) ''internal'' ''content'' = get_path2 n ''internal'' ''content''
           \<and> get_path2 (node_of H ob) ''internal'' ''mimeType'' = get_path2 n ''internal'' ''mimeType''
           \<and> unlinked (node_of H ob) = unlinked n"
proof -
  have ob1: "createNodeOptions H opts fsb (slash H fl) = Inr ob"
    using createNodeOptions_local[where fsb = fsb and fsa = fsa and H = H and fl = "slash H fl"
        and opts = opts] same ob by simp
  obtain s' ys where "watch_change H opts fsb fl s = Inr s'"
      "store s' (typeName opts) = as @ node_of H ob # bs @ ys"
    using watch_change_in_place[OF ob1 g n as] by blast
  moreover have "get_field (node_of H ob) ''path'' = get_field n ''path''"
    using orig by (simp add: unlinked_eq_field[of n "node_of H ob"])
  moreover have "get_path2 (node_of H ob) ''internal'' ''content'' = get_path2 n ''internal'' ''content''"
    using orig by (simp add: unlinked_eq_path2[of n "node_of H ob"])
  moreover have "get_path2 (node_of H ob) ''internal'' ''mimeType'' = get_path2 n ''internal'' ''mimeType''"
    using orig by (simp add: unlinked_eq_path2[of n "node_of H ob"])
  ultimately show ?thesis using orig by auto
qed

lemma change_after_add_and_sidebar:
  assumes add: "watch_add H opts fsa fl s = Inr s1"
      and keeps: "\<And>ob'. get_field (node_of H ob') ''id'' = get_field ob' ''id''"
      and fresh: "\<not> list_ex (\<lambda>m. get_field m ''id''
            = JStr (createUid H (path_relative H (context_dir H) (slash H fl))))
          (store s (typeName opts))"
      and same: "fsb (path_join H (context_dir H) (slash H fl))
                   = fsa (path_join H (context_dir H) (slash H fl))"
  shows "\<exists>s'. watch_change H opts fsb fl (createSidebar H opts s1) = Inr s'
           \<and> length (store s (typeName opts)) < length (store s' (typeName opts))
           \<and> store s' (typeName opts) ! length (store s (typeName opts))
               = store s1 (typeName opts) ! length (store s (typeName opts))
           \<and> unlinked (store s' (typeName opts) ! length (store s (typeName opts)))
               = unlinked (store (createSidebar H opts s1) (typeName opts) ! length (store s (typeName opts)))"
proof -
  let ?t = "typeName opts"
  let ?i = "length (store s ?t)"
  let ?s2 = "createSidebar H opts s1"
  obtain ob where ob: "createNodeOptions H opts fsa (slash H fl) = Inr ob"
      and s1: "s1 = createNodeRefs H (Some (node_of H ob)) (snd (addNode H ?t ob s))"
    using add by (auto simp: watch_add_def ingest_Inr)
  let ?v = "JStr (createUid H (path_relative H (context_dir H) (slash H fl)))"
  have idv: "get_field ob ''id'' = ?v"
    using ob by (rule createNodeOptions_id)
  obtain ys1 where "store s1 ?t = store (snd (addNode H ?t ob s)) ?t @ ys1"
    using s1 createNodeRefs_store_append by blast
  then have g1: "store s1 ?t = store s ?t @ node_of H ob # ys1"
    by (simp add: addNode_store)
  obtain zs where "map unlinked (store ?s2 ?t) = map unlinked (store s1 ?t) @ zs"
    using createSidebar_unlinked by blast
  then have m: "map unlinked (store ?s2 ?t)
      = map unlinked (store s ?t) @ (unlinked (node_of H ob) # (map unlinked ys1 @ zs))"
    by (simp add: g1)
  obtain as' vs where v: "store ?s2 ?t = as' @ vs" "map unlinked (store s ?t) = map unlinked as'"
      "unlinked (node_of H ob) # (map unlinked ys1 @ zs) = map unlinked vs"
    using m by (auto simp: map_eq_append_conv)
  obtain n' bs' where w: "vs = n' # bs'" "unlinked n' = unlinked (node_of H ob)"
    using v(3) by (auto simp: Cons_eq_map_conv)
  have g2: "store ?s2 ?t = as' @ n' # bs'" using v(1) w(1) by simp
  have len: "length as' = ?i"
    using v(2) by (metis length_map)
  have "\<not> list_ex (\<lambda>m. get_field m ''id'' = ?v) as'"
    using fresh v(2) list_ex_id_unlinked[of ?v "store s ?t"] list_ex_id_unlinked[of ?v as']
    by simp
  then have as': "\<not> list_ex (\<lambda>m. get_field m ''id'' = get_field ob ''id'') as'"
    by (simp add: idv)
  have n': "get_field n' ''id'' = get_field ob ''id''"
    using unlinked_eq_field[OF w(2), of "''id''"] keeps[of ob] by simp
  obtain s' ys where c: "watch_change H opts fsb fl ?s2 = Inr s'"
      "store s' ?t = as' @ node_of H ob # bs' @ ys"
      "unlinked (node_of H ob) = unlinked n'"
    using change_unchanged_file[where H = H and opts = opts and fsa = fsa and fsb = fsb
        and fl = fl and ob = ob and s = "createSidebar H opts s1" and as = as' and n = n'
        and bs = bs'] ob same g2 n' as' w(2) by blast
  have a: "store s' ?t ! ?i = node_of H ob"
    using c(2) len by (metis nth_append_length)
  have b: "store s1 ?t ! ?i = node_of H ob"
    using g1 by (metis nth_append_length)
  have d: "store ?s2 ?t ! ?i = n'"
    using g2 len by (metis nth_append_length)
  have e: "?i < length (store s' ?t)"
    using c(2) len by simp
  show ?thesis using c(1) a b d e c(3) by simp
qed

text \<open>
  The sidebar pass on a version named \<open>constructor\<close>: filling the section throws, and
  no Sidebar node is added.
\<close>

lemma createSidebar_run_prototype_version:
  "createSidebar_run example_host (defaultOptions\<lparr>sidebarOrder := [(''constructor'', [''Intro''])]\<rparr>)
      (init_state\<lparr>store := (store init_state)(''FileNode'' :=
         [[(''path'', JStr ''/c/x''), (''version'', JStr ''constructor''),
           (''section'', JStr ''Intro'')]])\<rparr>)
     = (Inl (TypeError ''sections is undefined''),
        init_state\<lparr>store := (store init_state)(''FileNode'' :=
             [[(''path'', JStr ''/c/x''), (''version'', JStr ''constructor''),
               (''section'', JStr ''Intro'')]]),
          collections := [''Sidebar'']\<rparr>)"
  by (simp add: createSidebar_run_def createSidebar_title_def createSidebarSection_def
        sortSection_def findNodes_def link_step_def example_host_def v8_sort_def
        defaultOptions_def init_state_def get_field_def object_prototype_keys_def Let_def)

section \<open>The claims\<close>

text \<open>
  C1. Metadata derivation splits the file's directory; depth 1 gives the version and
  depth 2 the version and the section. For a directory three levels deep
  \<open>createDocInfo\<close> returns \<open>undefined\<close>, and \<open>createNodeOptions\<close> then throws on
  \<open>docInfo.version\<close>: with every file readable, the record of \<open>a/b/c/doc.md\<close> is a
  TypeError and no node is created. A file directly in the base directory has the
  directory \<open>.\<close>, which is one segment: its version is \<open>.\<close>, not absent.
\<close>

theorem createNodeOptions_depth3_TypeError:
  "createNodeOptions H opts (all_readable content) ''a/b/c/doc.md''
     = Inl (TypeError ''docInfo is undefined'')
   \<and> createDocInfo ''a/b/c/doc.md'' = None
   \<and> createDocInfo ''doc.md'' = Some [(''version'', JStr ''.'')]"
proof -
  have d: "createDocInfo ''a/b/c/doc.md'' = None"
    by code_simp
  have e: "createDocInfo ''doc.md'' = Some [(''version'', JStr ''.'')]"
    by code_simp
  show ?thesis
    using d e by (simp add: createNodeOptions_def all_readable_def Let_def split: prod.splits)
qed

text \<open>
  C2 (as amended). Where a slug holds no slash, the computed path is \<open>/\<close> when there
  is no segment, and otherwise every segment behind a slash, followed by one more slash
  when \<open>trailingSlash\<close> is set. Every directory segment is kept: with slugs that leave
  \<open>docs\<close>, \<open>v1\<close> and \<open>getting-started\<close> as they are, index \<open>["index"]\<close>, no prefix
  and no trailing slash, the directory \<open>docs/v1\<close> gives \<open>/docs/v1/getting-started\<close> for
  the name \<open>getting-started\<close> and \<open>/docs/v1\<close> for the name \<open>index\<close>; the paths
  \<open>/v1/getting-started\<close> and \<open>/v1\<close> are those of the directory \<open>v1\<close>.
\<close>

theorem createPath_segments:
  assumes slug: "\<And>s. CHR ''/'' \<notin> set (slugify H s)"
  shows "createPath H opts dir name =
           (if path_segments H opts dir name = [] then ''/''
            else concat (map ((@) ''/'') (path_segments H opts dir name))
                 @ (if trailingSlash H then ''/'' else []))
       \<and> (slugify H ''docs'' = ''docs'' \<and> slugify H ''v1'' = ''v1''
          \<and> slugify H ''getting-started'' = ''getting-started''
          \<and> slash H ''docs/v1'' = ''docs/v1'' \<and> slash H ''v1'' = ''v1''
          \<and> index opts = [''index''] \<and> pathPrefix opts = None \<and> \<not> trailingSlash H
          \<longrightarrow> createPath H opts ''docs/v1'' ''getting-started'' = ''/docs/v1/getting-started''
            \<and> createPath H opts ''docs/v1'' ''index'' = ''/docs/v1''
            \<and> createPath H opts ''v1'' ''getting-started'' = ''/v1/getting-started''
            \<and> createPath H opts ''v1'' ''index'' = ''/v1'')"
proof (intro conjI impI)
  show "createPath H opts dir name =
           (if path_segments H opts dir name = [] then ''/''
            else concat (map ((@) ''/'') (path_segments H opts dir name))
                 @ (if trailingSlash H then ''/'' else []))"
    using slug by (rule createPath_general)
next
  assume a: "slugify H ''docs'' = ''docs'' \<and> slugify H ''v1'' = ''v1''
          \<and> slugify H ''getting-started'' = ''getting-started''
          \<and> slash H ''docs/v1'' = ''docs/v1'' \<and> slash H ''v1'' = ''v1''
          \<and> index opts = [''index''] \<and> pathPrefix opts = None \<and> \<not> trailingSlash H"
  show "createPath H opts ''docs/v1'' ''getting-started'' = ''/docs/v1/getting-started''"
    using a by (simp add: createPath_def trim_slash_def trimEnd_slash_def)
  show "createPath H opts ''docs/v1'' ''index'' = ''/docs/v1''"
    using a by (simp add: createPath_def trim_slash_def trimEnd_slash_def)
  show "createPath H opts ''v1'' ''getting-started'' = ''/v1/getting-started''"
    using a by (simp add: createPath_def trim_slash_def trimEnd_slash_def)
  show "createPath H opts ''v1'' ''index'' = ''/v1''"
    using a by (simp add: createPath_def trim_slash_def trimEnd_slash_def)
qed

theorem createPath_segments_witness:
  "createPath example_host defaultOptions ''docs/v1'' ''getting-started''
     = ''/docs/v1/getting-started''
   \<and> createPath example_host defaultOptions ''docs/v1'' ''index'' = ''/docs/v1''
   \<and> createPath example_host defaultOptions ''v1'' ''getting-started'' = ''/v1/getting-started''
   \<and> createPath example_host defaultOptions ''v1'' ''index'' = ''/v1''"
proof -
  have slug: "\<And>s. CHR ''/'' \<notin> set (slugify example_host s)"
    by (simp add: example_host_def example_slugify_no_slash)
  have pre: "slugify example_host ''docs'' = ''docs'' \<and> slugify example_host ''v1'' = ''v1''
          \<and> slugify example_host ''getting-started'' = ''getting-started''
          \<and> slash example_host ''docs/v1'' = ''docs/v1'' \<and> slash example_host ''v1'' = ''v1''
          \<and> index defaultOptions = [''index''] \<and> pathPrefix defaultOptions = None
          \<and> \<not> trailingSlash example_host"
    by (simp add: example_host_def defaultOptions_def example_slugify_def)
  from createPath_segments[OF slug, of defaultOptions "[]" "[]"] pre
  show ?thesis by blast
qed

theorem createPath_docs_v1_counterexample:
  "createPath example_host defaultOptions ''docs/v1'' ''getting-started''
     \<noteq> ''/v1/getting-started''
   \<and> createPath example_host defaultOptions ''docs/v1'' ''index'' \<noteq> ''/v1''"
  by (simp add: createPath_def example_host_def defaultOptions_def example_slugify_def
        trim_slash_def trimEnd_slash_def)

text \<open>
  C3 (as amended). A unit of the bulk ingestion whose record cannot be computed (its
  file cannot be read) changes nothing: no node of that file enters the graph. The
  units of the other files run all the same: the graph after the bulk ingestion is the
  graph of ingesting only the files whose record can be computed, and holds the node of
  every such file. But the bulk ingestion as a whole rejects exactly when one of its
  units fails (\<open>Promise.all\<close>), with the error of the first unit that fails, and the
  load then stops before the sidebar pass.
\<close>

theorem createNodes_failure_isolation:
  "(createNodeOptions H opts fs fl = Inl e \<longrightarrow> createNodes H opts fs [fl] s = (Inl e, s))
   \<and> snd (createNodes H opts fs files s)
       = snd (createNodes H opts fs (filter (\<lambda>f. \<not> isl (createNodeOptions H opts fs f)) files) s)
   \<and> (g \<in> set files \<and> createNodeOptions H opts fs g = Inr ob \<longrightarrow>
        node_of H ob \<in> set (store (snd (createNodes H opts fs files s)) (typeName opts)))
   \<and> (isl (fst (createNodes H opts fs files s))
        \<longleftrightarrow> list_ex (\<lambda>f. isl (createNodeOptions H opts fs f)) files)
   \<and> fst (createNodes H opts fs files s)
       = (case find (\<lambda>f. isl (createNodeOptions H opts fs f)) files of
            None \<Rightarrow> Inr ()
          | Some f \<Rightarrow> Inl (projl (createNodeOptions H opts fs f)))
   \<and> (fst (createNodes H opts fs files (createCollections opts s)) = Inl e' \<longrightarrow>
        loadSource H opts fs files s
          = (Inl e', snd (createNodes H opts fs files (createCollections opts s))))"
proof (intro conjI impI)
  assume "createNodeOptions H opts fs fl = Inl e"
  then have "ingest H opts fs fl s = Inl e" by (simp add: ingest_Inl)
  then show "createNodes H opts fs [fl] s = (Inl e, s)"
    by (simp add: createNodes_def)
next
  show "snd (createNodes H opts fs files s)
       = snd (createNodes H opts fs (filter (\<lambda>f. \<not> isl (createNodeOptions H opts fs f)) files) s)"
    unfolding createNodes_snd by (rule createNodes_units_skip_failed)
next
  assume "g \<in> set files \<and> createNodeOptions H opts fs g = Inr ob"
  then show "node_of H ob \<in> set (store (snd (createNodes H opts fs files s)) (typeName opts))"
    unfolding createNodes_snd by (auto intro: createNodes_units_adds_node)
next
  show "isl (fst (createNodes H opts fs files s))
        \<longleftrightarrow> list_ex (\<lambda>f. isl (createNodeOptions H opts fs f)) files"
    by (rule createNodes_fst_isl)
next
  show "fst (createNodes H opts fs files s)
       = (case find (\<lambda>f. isl (createNodeOptions H opts fs f)) files of
            None \<Rightarrow> Inr ()
          | Some f \<Rightarrow> Inl (projl (createNodeOptions H opts fs f)))"
    by (rule createNodes_fst_first)
next
  assume "fst (createNodes H opts fs files (createCollections opts s)) = Inl e'"
  then show "loadSource H opts fs files s
          = (Inl e', snd (createNodes H opts fs files (createCollections opts s)))"
    by (simp add: loadSource_unfold)
qed

theorem createNodes_failure_isolation_witness:
  "createNodes example_host defaultOptions
      (map_of [(''/site/v1/b.md'', ''B'')]) [''v1/a.md''] init_state
     = (Inl (FileReadError ''/site/v1/a.md''), init_state)
   \<and> isl (fst (createNodes example_host defaultOptions
      (map_of [(''/site/v1/b.md'', ''B'')]) [''v1/a.md'', ''v1/b.md'']
      init_state))
   \<and> fst (createNodes example_host defaultOptions
      (map_of [(''/site/v1/b.md'', ''B'')]) [''v1/b.md'', ''v1/c.md'', ''v1/a.md'']
      init_state)
     = Inl (FileReadError ''/site/v1/c.md'')"
proof -
  let ?fs = "map_of [(''/site/v1/b.md'', ''B'')] :: filesystem"
  have a: "createNodeOptions example_host defaultOptions ?fs ''v1/a.md''
      = Inl (FileReadError ''/site/v1/a.md'')"
    by (simp add: createNodeOptions_def example_host_def)
  have c: "createNodeOptions example_host defaultOptions ?fs ''v1/c.md''
      = Inl (FileReadError ''/site/v1/c.md'')"
    by (simp add: createNodeOptions_def example_host_def)
  have b: "\<not> isl (createNodeOptions example_host defaultOptions ?fs ''v1/b.md'')"
    by code_simp
  have one: "createNodes example_host defaultOptions ?fs [''v1/a.md''] init_state
       = (Inl (FileReadError ''/site/v1/a.md''), init_state)
     \<and> isl (fst (createNodes example_host defaultOptions ?fs [''v1/a.md'', ''v1/b.md''] init_state))"
    using createNodes_failure_isolation[where H = example_host and opts = defaultOptions
      and fs = ?fs and fl = "''v1/a.md''" and e = "FileReadError ''/site/v1/a.md''"
      and files = "[''v1/a.md'', ''v1/b.md'']" and s = init_state] a
    by simp
  have first: "fst (createNodes example_host defaultOptions ?fs
        [''v1/b.md'', ''v1/c.md'', ''v1/a.md''] init_state)
      = Inl (FileReadError ''/site/v1/c.md'')"
    using createNodes_failure_isolation[where H = example_host and opts = defaultOptions
      and fs = ?fs and files = "[''v1/b.md'', ''v1/c.md'', ''v1/a.md'']" and s = init_state]
      a b c
    by simp
  from one first show ?thesis by (intro conjI) simp_all
qed

theorem createNodes_abort_counterexample:
  "fst (loadSource example_host (defaultOptions\<lparr>sidebarOrder := [(''v1'', [''guides''])]\<rparr>)
          (map_of [(''/site/v1/guides/b.md'', ''B'')])
          [''v1/guides/a.md'', ''v1/guides/b.md''] init_state)
     = Inl (FileReadError ''/site/v1/guides/a.md'')
   \<and> store (snd (loadSource example_host (defaultOptions\<lparr>sidebarOrder := [(''v1'', [''guides''])]\<rparr>)
          (map_of [(''/site/v1/guides/b.md'', ''B'')])
          [''v1/guides/a.md'', ''v1/guides/b.md''] init_state)) ''Sidebar'' = []
   \<and> store (snd (loadSource example_host (defaultOptions\<lparr>sidebarOrder := [(''v1'', [''guides''])]\<rparr>)
          (map_of [(''/site/v1/guides/b.md'', ''B'')])
          [''v1/guides/b.md''] init_state)) ''Sidebar''
       = [[(''id'', JStr ''v1''),
           (''sections'', JArr [JObj [(''title'', JStr ''guides''),
                                      (''items'', JArr [JStr ''/v1/guides/b''])]])]]"
  by code_simp

text \<open>
  C4. Within a sidebar section the matched nodes are to be sorted by ascending weight
  with ties in match order, the links following that order. The comparator of
  \<open>sortSection\<close> answers \<open>-1\<close> for two equal weights, in either order, and never \<open>0\<close>, so it
  tells the engine that each of the two comes first, and the order the engine then
  chooses is its own. On V8 two nodes X, Y of weight 1, matched in the order X, Y, come
  out as Y, X: the section's items are Y's path, then X's, Y's \<open>next\<close> is X and X's
  \<open>prev\<close> is Y.
\<close>

theorem createSidebar_ties_reversed:
  "store (createSidebar example_host (defaultOptions\<lparr>sidebarOrder := [(''v1'', [''Intro''])]\<rparr>)
      (init_state\<lparr>store := (store init_state)(''FileNode'' :=
         [[(''path'', JStr ''/v1/x''), (''version'', JStr ''v1''), (''section'', JStr ''Intro''),
           (''weight'', JNum 1)],
          [(''path'', JStr ''/v1/y''), (''version'', JStr ''v1''), (''section'', JStr ''Intro''),
           (''weight'', JNum 1)]])\<rparr>)) ''Sidebar''
     = [[(''id'', JStr ''v1''),
         (''sections'', JArr [JObj [(''title'', JStr ''Intro''),
                                    (''items'', JArr [JStr ''/v1/y'', JStr ''/v1/x''])]])]]
   \<and> store (createSidebar example_host (defaultOptions\<lparr>sidebarOrder := [(''v1'', [''Intro''])]\<rparr>)
      (init_state\<lparr>store := (store init_state)(''FileNode'' :=
         [[(''path'', JStr ''/v1/x''), (''version'', JStr ''v1''), (''section'', JStr ''Intro''),
           (''weight'', JNum 1)],
          [(''path'', JStr ''/v1/y''), (''version'', JStr ''v1''), (''section'', JStr ''Intro''),
           (''weight'', JNum 1)]])\<rparr>)) ''FileNode''
     = [[(''path'', JStr ''/v1/x''), (''version'', JStr ''v1''), (''section'', JStr ''Intro''),
         (''weight'', JNum 1), (''prev'', JStr ''/v1/y'')],
        [(''path'', JStr ''/v1/y''), (''version'', JStr ''v1''), (''section'', JStr ''Intro''),
         (''weight'', JNum 1), (''next'', JStr ''/v1/x'')]]"
  by code_simp

text \<open>
  C5. A stub is created only where \<open>create\<close> is true: a reference whose \<open>create\<close> is
  false leaves the state as it was. One resolution adds at most one node, the stub
  \<open>{id: value, title: value}\<close>, to the collection of the type name. And it does so at
  most once per triple for the rest of the run: after a triple has been resolved once,
  resolving the same triple again after any further watcher events changes nothing.
  Two nodes that both carry \<open>author: "jane"\<close> under
  \<open>refs.author = {typeName: "Author", create: true}\<close>, resolved where the triple is not
  yet in the cache, add exactly one stub to the Author collection.
\<close>

theorem stub_created_once_per_triple:
  "(\<not> truthy (get_field r ''create'') \<longrightarrow> createNodeRefs_field H node s (f, r) = s)
   \<and> (store (addRefNode H tn f v s) = store s
      \<or> store (addRefNode H tn f v s)
           = (store s)(to_string tn := store s (to_string tn) @ [node_of H (stub v)]))
   \<and> addRefNode H tn f v (watch_events H opts evs (addRefNode H tn f v s))
        = watch_events H opts evs (addRefNode H tn f v s)
   \<and> (this_refs s = [(''author'', [(''typeName'', JStr ''Author''), (''create'', JBool True)])]
        \<and> cacheKey (JStr ''Author'') ''author'' (JStr ''jane'') \<notin> refsCache s
        \<and> get_field na ''author'' = JStr ''jane'' \<and> get_field nb ''author'' = JStr ''jane''
      \<longrightarrow> store (createNodeRefs H (Some nb) (createNodeRefs H (Some na) s)) ''Author''
            = store s ''Author'' @ [node_of H (stub (JStr ''jane''))])"
proof (intro conjI impI)
  assume "\<not> truthy (get_field r ''create'')"
  then show "createNodeRefs_field H node s (f, r) = s"
    by (simp add: createNodeRefs_field_def split: option.splits)
next
  show "store (addRefNode H tn f v s) = store s
      \<or> store (addRefNode H tn f v s)
           = (store s)(to_string tn := store s (to_string tn) @ [node_of H (stub v)])"
    by (simp add: addRefNode_unfold)
next
  let ?s1 = "addRefNode H tn f v s"
  have "settled ?s1 (tn, f, v)" by (rule addRefNode_settles)
  then have "settled (watch_events H opts evs ?s1) (tn, f, v)"
    using settled_mono[OF watch_events_cache_mono] by blast
  then show "addRefNode H tn f v (watch_events H opts evs ?s1) = watch_events H opts evs ?s1"
    by (rule addRefNode_settled)
next
  assume a: "this_refs s = [(''author'', [(''typeName'', JStr ''Author''), (''create'', JBool True)])]
        \<and> cacheKey (JStr ''Author'') ''author'' (JStr ''jane'') \<notin> refsCache s
        \<and> get_field na ''author'' = JStr ''jane'' \<and> get_field nb ''author'' = JStr ''jane''"
  let ?s1 = "addRefNode H (JStr ''Author'') ''author'' (JStr ''jane'') s"
  have c1: "createNodeRefs H (Some na) s = ?s1"
    using a by (simp add: createNodeRefs_calls ref_calls_def get_field_def)
  have "this_refs ?s1 = this_refs s" by simp
  then have c2: "createNodeRefs H (Some nb) ?s1 = addRefNode H (JStr ''Author'') ''author'' (JStr ''jane'') ?s1"
    using a by (simp add: createNodeRefs_calls ref_calls_def get_field_def)
  have "settled ?s1 (JStr ''Author'', ''author'', JStr ''jane'')" by (rule addRefNode_settles)
  then have "addRefNode H (JStr ''Author'') ''author'' (JStr ''jane'') ?s1 = ?s1"
    by (rule addRefNode_settled)
  with c1 c2 have "createNodeRefs H (Some nb) (createNodeRefs H (Some na) s) = ?s1" by simp
  moreover have "store ?s1 ''Author'' = store s ''Author'' @ [node_of H (stub (JStr ''jane''))]"
    using a by (simp add: addRefNode_unfold)
  ultimately show "store (createNodeRefs H (Some nb) (createNodeRefs H (Some na) s)) ''Author''
            = store s ''Author'' @ [node_of H (stub (JStr ''jane''))]"
    by simp
qed

theorem stub_created_once_per_triple_witness:
  "store (createNodeRefs example_host (Some [(''id'', JStr ''b''), (''author'', JStr ''jane'')])
            (createNodeRefs example_host (Some [(''id'', JStr ''a''), (''author'', JStr ''jane'')])
               (createCollections
                  (defaultOptions\<lparr>refs := [(''author'',
                      RefObj [(''typeName'', JStr ''Author''), (''create'', JBool True)])]\<rparr>)
                  init_state)))
         ''Author''
     = [[(''id'', JStr ''jane''), (''title'', JStr ''jane'')]]"
proof -
  let ?s = "createCollections
              (defaultOptions\<lparr>refs := [(''author'',
                  RefObj [(''typeName'', JStr ''Author''), (''create'', JBool True)])]\<rparr>)
              init_state"
  have r: "this_refs ?s = [(''author'', [(''typeName'', JStr ''Author''), (''create'', JBool True)])]"
    by (simp add: createCollections_def createCollections_ref_def normalizeRefs_def
          normalizeRef_def defaultOptions_def init_state_def get_field_def Let_def)
  have c: "refsCache ?s = {}"
    by (simp add: createCollections_def createCollections_ref_def normalizeRefs_def
          normalizeRef_def defaultOptions_def init_state_def get_field_def Let_def)
  have g: "store ?s ''Author'' = []"
    by (simp add: createCollections_def createCollections_ref_def normalizeRefs_def
          normalizeRef_def defaultOptions_def init_state_def get_field_def Let_def)
  have n: "get_field [(''id'', JStr ''a''), (''author'', JStr ''jane'')] ''author'' = JStr ''jane''
      \<and> get_field [(''id'', JStr ''b''), (''author'', JStr ''jane'')] ''author'' = JStr ''jane''"
    by (simp add: get_field_def)
  from stub_created_once_per_triple[where s = ?s and H = example_host
      and na = "[(''id'', JStr ''a''), (''author'', JStr ''jane'')]"
      and nb = "[(''id'', JStr ''b''), (''author'', JStr ''jane'')]"] r c n
  have "store (createNodeRefs example_host (Some [(''id'', JStr ''b''), (''author'', JStr ''jane'')])
            (createNodeRefs example_host (Some [(''id'', JStr ''a''), (''author'', JStr ''jane'')]) ?s))
         ''Author''
     = store ?s ''Author'' @ [node_of example_host (stub (JStr ''jane''))]"
    by simp
  then show ?thesis using g by (simp add: example_host_def stub_def)
qed

text \<open>
  C6. An unlink event computes the absolute path of the removed file and asks the
  collection to remove the node with that \<open>internal.origin\<close>. If no node of the
  collection has it, the event changes nothing at all. Otherwise one node with that
  origin, the first in the collection, is deleted and every other node stays, in order.
  The other collections, the reference cache and \<open>this.refs\<close> are untouched. The
  absolute path is the origin that \<open>createNodeOptions\<close> records for the same file.
\<close>

theorem unlink_removes_matching_node:
  "(\<not> list_ex (has_origin (path_join H (context_dir H) (slash H fl))) (store s (typeName opts))
      \<longrightarrow> watch_unlink H opts fl s = s)
   \<and> (list_ex (has_origin (path_join H (context_dir H) (slash H fl))) (store s (typeName opts))
      \<longrightarrow> (\<exists>as n bs. store s (typeName opts) = as @ n # bs
             \<and> has_origin (path_join H (context_dir H) (slash H fl)) n
             \<and> \<not> list_ex (has_origin (path_join H (context_dir H) (slash H fl))) as
             \<and> store (watch_unlink H opts fl s) (typeName opts) = as @ bs))
   \<and> (t \<noteq> typeName opts \<longrightarrow> store (watch_unlink H opts fl s) t = store s t)
   \<and> refsCache (watch_unlink H opts fl s) = refsCache s
   \<and> this_refs (watch_unlink H opts fl s) = this_refs s
   \<and> (createNodeOptions H opts fs (slash H fl) = Inr ob
      \<longrightarrow> has_origin (path_join H (context_dir H) (slash H fl)) ob)"
proof (intro conjI impI)
  let ?p = "path_join H (context_dir H) (slash H fl)"
  {
    assume "\<not> list_ex (has_origin ?p) (store s (typeName opts))"
    then have "remove_first (has_origin ?p) (store s (typeName opts)) = store s (typeName opts)"
      by (rule remove_first_none)
    then show "watch_unlink H opts fl s = s"
      by (simp add: watch_unlink_def removeNode_def Let_def)
  next
    assume "list_ex (has_origin ?p) (store s (typeName opts))"
    then obtain as n bs where
      "store s (typeName opts) = as @ n # bs" "has_origin ?p n" "\<not> list_ex (has_origin ?p) as"
      "remove_first (has_origin ?p) (store s (typeName opts)) = as @ bs"
      using remove_first_split by blast
    then have "store s (typeName opts) = as @ n # bs \<and> has_origin ?p n
        \<and> \<not> list_ex (has_origin ?p) as
        \<and> store (watch_unlink H opts fl s) (typeName opts) = as @ bs"
      by (simp add: watch_unlink_store)
    then show "\<exists>as n bs. store s (typeName opts) = as @ n # bs \<and> has_origin ?p n
        \<and> \<not> list_ex (has_origin ?p) as
        \<and> store (watch_unlink H opts fl s) (typeName opts) = as @ bs"
      by blast
  next
    assume "t \<noteq> typeName opts"
    then show "store (watch_unlink H opts fl s) t = store s t"
      by (simp add: watch_unlink_store)
  next
    show "refsCache (watch_unlink H opts fl s) = refsCache s" by simp
    show "this_refs (watch_unlink H opts fl s) = this_refs s" by simp
  next
    assume "createNodeOptions H opts fs (slash H fl) = Inr ob"
    then show "has_origin ?p ob" by (rule createNodeOptions_origin)
  }
qed

theorem unlink_removes_matching_node_witness:
  "store (watch_unlink example_host defaultOptions ''v1/a.md''
       (init_state\<lparr>store := (store init_state)(''FileNode'' :=
          [[(''id'', JStr ''v1/a.md''), (''internal'', JObj [(''origin'', JStr ''/site/v1/a.md'')])],
           [(''id'', JStr ''v1/b.md''), (''internal'', JObj [(''origin'', JStr ''/site/v1/b.md'')])]])\<rparr>)) ''FileNode''
     = [[(''id'', JStr ''v1/b.md''), (''internal'', JObj [(''origin'', JStr ''/site/v1/b.md'')])]]
   \<and> watch_unlink example_host defaultOptions ''v1/c.md''
       (init_state\<lparr>store := (store init_state)(''FileNode'' :=
          [[(''id'', JStr ''v1/a.md''), (''internal'', JObj [(''origin'', JStr ''/site/v1/a.md'')])],
           [(''id'', JStr ''v1/b.md''), (''internal'', JObj [(''origin'', JStr ''/site/v1/b.md'')])]])\<rparr>)
     = init_state\<lparr>store := (store init_state)(''FileNode'' :=
          [[(''id'', JStr ''v1/a.md''), (''internal'', JObj [(''origin'', JStr ''/site/v1/a.md'')])],
           [(''id'', JStr ''v1/b.md''), (''internal'', JObj [(''origin'', JStr ''/site/v1/b.md'')])]])\<rparr>"
proof -
  let ?A = "[(''id'', JStr ''v1/a.md''), (''internal'', JObj [(''origin'', JStr ''/site/v1/a.md'')])]"
  let ?B = "[(''id'', JStr ''v1/b.md''), (''internal'', JObj [(''origin'', JStr ''/site/v1/b.md'')])]"
  let ?s = "init_state\<lparr>store := (store init_state)(''FileNode'' := [?A, ?B])\<rparr>"
  have tn: "typeName defaultOptions = ''FileNode''" by (simp add: defaultOptions_def)
  have g: "store ?s (typeName defaultOptions) = [?A, ?B]" by (simp add: tn)
  have pa: "path_join example_host (context_dir example_host) (slash example_host ''v1/a.md'')
      = ''/site/v1/a.md''" by (simp add: example_host_def)
  have pc: "path_join example_host (context_dir example_host) (slash example_host ''v1/c.md'')
      = ''/site/v1/c.md''" by (simp add: example_host_def)
  have oa: "has_origin ''/site/v1/a.md'' ?A" "\<not> has_origin ''/site/v1/a.md'' ?B"
    by (simp_all add: has_origin_def get_path2_def get_field_def)
  have oc: "\<not> has_origin ''/site/v1/c.md'' ?A" "\<not> has_origin ''/site/v1/c.md'' ?B"
    by (simp_all add: has_origin_def get_path2_def get_field_def)
  have nc: "\<not> list_ex (has_origin (path_join example_host (context_dir example_host)
        (slash example_host ''v1/c.md''))) (store ?s (typeName defaultOptions))"
    unfolding pc g using oc by simp
  have miss: "watch_unlink example_host defaultOptions ''v1/c.md'' ?s = ?s"
    using unlink_removes_matching_node[where H = example_host and opts = defaultOptions
        and fl = "''v1/c.md''" and s = ?s, THEN conjunct1] nc
    by (rule mp)
  have ya: "list_ex (has_origin (path_join example_host (context_dir example_host)
        (slash example_host ''v1/a.md''))) (store ?s (typeName defaultOptions))"
    unfolding pa g using oa by simp
  have "\<exists>as n bs. store ?s (typeName defaultOptions) = as @ n # bs
      \<and> has_origin (path_join example_host (context_dir example_host) (slash example_host ''v1/a.md'')) n
      \<and> \<not> list_ex (has_origin (path_join example_host (context_dir example_host)
             (slash example_host ''v1/a.md''))) as
      \<and> store (watch_unlink example_host defaultOptions ''v1/a.md'' ?s) (typeName defaultOptions) = as @ bs"
    using unlink_removes_matching_node[where H = example_host and opts = defaultOptions
        and fl = "''v1/a.md''" and s = ?s, THEN conjunct2, THEN conjunct1] ya
    by (rule mp)
  then obtain as n bs where d: "[?A, ?B] = as @ n # bs" "has_origin ''/site/v1/a.md'' n"
      "\<not> list_ex (has_origin ''/site/v1/a.md'') as"
      "store (watch_unlink example_host defaultOptions ''v1/a.md'' ?s) (typeName defaultOptions) = as @ bs"
    unfolding pa g by blast
  have "as = []"
  proof (cases as)
    case Nil
    then show ?thesis .
  next
    case (Cons a as')
    with d(1) have "a = ?A" by simp
    with d(3) Cons oa(1) show ?thesis by simp
  qed
  with d(1) have "bs = [?B]" by simp
  with d(4) \<open>as = []\<close> have "store (watch_unlink example_host defaultOptions ''v1/a.md'' ?s) ''FileNode'' = [?B]"
    unfolding tn by simp
  with miss show ?thesis by (intro conjI)
qed

text \<open>
  C7. A change event recomputes the full record of the file: its id, path, file
  information, version, section, mime type, content and origin are what
  \<open>createNodeOptions\<close> computes from the file's location and the content read at its
  origin, and from nothing else of the file system. The node built from that record
  takes, whole, the place of the first node with the record's id, and its references
  are resolved, which only appends. So where that node is the node of the same file
  with the same content, as ingested and as the sidebar pass may since have linked it
  (the pass writes nothing but \<open>next\<close> and \<open>prev\<close>), the node after the change has the
  content, mime type and path of the original, and differs from it in nothing but
  those links. In particular a file added, linked by a sidebar pass and then changed
  without a change of content has, in its place, the node exactly as it was ingested;
  and changed right after it was added, it leaves the whole state as it was.
\<close>

theorem change_replaces_wholesale:
  "(createNodeOptions H opts fs fl = Inr ob \<longrightarrow>
      (\<exists>content docInfo. fs (path_join H (context_dir H) fl) = Some content
        \<and> createDocInfo fl = Some docInfo
        \<and> ob = [(''id'', JStr (createUid H (path_relative H (context_dir H) fl))),
                (''path'', JStr (createPath H opts (fst (path_parse H fl))
                                   (fst (snd (path_parse H fl))))),
                (''fileInfo'', JObj [(''extension'', JStr (snd (snd (path_parse H fl)))),
                                     (''directory'', JStr (fst (path_parse H fl))),
                                     (''path'', JStr fl),
                                     (''name'', JStr (fst (snd (path_parse H fl))))]),
                (''version'', get_field docInfo ''version''),
                (''section'', get_field docInfo ''section''),
                (''internal'', JObj [(''mimeType'', JStr (case mime_lookup H fl of
                     None \<Rightarrow> ''application/x-'' @ remove1 (CHR ''.'') (snd (snd (path_parse H fl)))
                   | Some m \<Rightarrow> if m = []
                       then ''application/x-'' @ remove1 (CHR ''.'') (snd (snd (path_parse H fl)))
                       else m)),
                                     (''content'', JStr content),
                                     (''origin'', JStr (path_join H (context_dir H) fl))])]))
   \<and> (fsb (path_join H (context_dir H) fl) = fs (path_join H (context_dir H) fl) \<longrightarrow>
        createNodeOptions H opts fsb fl = createNodeOptions H opts fs fl)
   \<and> (createNodeOptions H opts fs (slash H fl) = Inr ob
        \<and> fsb (path_join H (context_dir H) (slash H fl))
            = fs (path_join H (context_dir H) (slash H fl))
        \<and> store s (typeName opts) = as @ n # bs
        \<and> get_field n ''id'' = get_field ob ''id''
        \<and> \<not> list_ex (\<lambda>m. get_field m ''id'' = get_field ob ''id'') as
        \<and> unlinked n = unlinked (node_of H ob)
      \<longrightarrow> (\<exists>s' ys. watch_change H opts fsb fl s = Inr s'
             \<and> store s' (typeName opts) = as @ node_of H ob # bs @ ys
             \<and> get_field (node_of H ob) ''path'' = get_field n ''path''
             \<and> get_path2 (node_of H ob) ''internal'' ''content''
                 = get_path2 n ''internal'' ''content''
             \<and> get_path2 (node_of H ob) ''internal'' ''mimeType''
                 = get_path2 n ''internal'' ''mimeType''
             \<and> unlinked (node_of H ob) = unlinked n))
   \<and> (createNodeOptions H opts fs (slash H fl) = Inr ob
        \<and> store s (typeName opts) = as @ n # bs
        \<and> get_field n ''id'' = get_field ob ''id''
        \<and> \<not> list_ex (\<lambda>m. get_field m ''id'' = get_field ob ''id'') as
      \<longrightarrow> (\<exists>s' ys. watch_change H opts fs fl s = Inr s'
             \<and> store s' (typeName opts) = as @ node_of H ob # bs @ ys))
   \<and> (\<exists>ys. map unlinked (store (createSidebar H opts s) t) = map unlinked (store s t) @ ys)
   \<and> (watch_add H opts fs fl s = Inr sa
        \<and> (\<forall>ob'. get_field (node_of H ob') ''id'' = get_field ob' ''id'')
        \<and> \<not> list_ex (\<lambda>m. get_field m ''id''
                 = JStr (createUid H (path_relative H (context_dir H) (slash H fl))))
             (store s (typeName opts))
        \<and> fsb (path_join H (context_dir H) (slash H fl))
            = fs (path_join H (context_dir H) (slash H fl))
      \<longrightarrow> (\<exists>s'. watch_change H opts fsb fl (createSidebar H opts sa) = Inr s'
             \<and> length (store s (typeName opts)) < length (store s' (typeName opts))
             \<and> store s' (typeName opts) ! length (store s (typeName opts))
                 = store sa (typeName opts) ! length (store s (typeName opts))
             \<and> unlinked (store s' (typeName opts) ! length (store s (typeName opts)))
                 = unlinked (store (createSidebar H opts sa) (typeName opts)
                              ! length (store s (typeName opts)))))
   \<and> (watch_add H opts fs fl s = Inr sa
        \<and> (\<forall>ob'. get_field (node_of H ob') ''id'' = get_field ob' ''id'')
        \<and> \<not> list_ex (\<lambda>n. get_field n ''id''
                 = JStr (createUid H (path_relative H (context_dir H) (slash H fl))))
             (store s (typeName opts))
     \<longrightarrow> watch_change H opts fs fl sa = Inr sa)"
proof (intro conjI impI)
  assume "createNodeOptions H opts fs fl = Inr ob"
  then show "\<exists>content docInfo. fs (path_join H (context_dir H) fl) = Some content
        \<and> createDocInfo fl = Some docInfo
        \<and> ob = [(''id'', JStr (createUid H (path_relative H (context_dir H) fl))),
                (''path'', JStr (createPath H opts (fst (path_parse H fl))
                                   (fst (snd (path_parse H fl))))),
                (''fileInfo'', JObj [(''extension'', JStr (snd (snd (path_parse H fl)))),
                                     (''directory'', JStr (fst (path_parse H fl))),
                                     (''path'', JStr fl),
                                     (''name'', JStr (fst (snd (path_parse H fl))))]),
                (''version'', get_field docInfo ''version''),
                (''section'', get_field docInfo ''section''),
                (''internal'', JObj [(''mimeType'', JStr (case mime_lookup H fl of
                     None \<Rightarrow> ''application/x-'' @ remove1 (CHR ''.'') (snd (snd (path_parse H fl)))
                   | Some m \<Rightarrow> if m = []
                       then ''application/x-'' @ remove1 (CHR ''.'') (snd (snd (path_parse H fl)))
                       else m)),
                                     (''content'', JStr content),
                                     (''origin'', JStr (path_join H (context_dir H) fl))])]"
    by (rule createNodeOptions_record)
next
  assume "fsb (path_join H (context_dir H) fl) = fs (path_join H (context_dir H) fl)"
  then show "createNodeOptions H opts fsb fl = createNodeOptions H opts fs fl"
    by (rule createNodeOptions_local)
next
  assume a: "createNodeOptions H opts fs (slash H fl) = Inr ob
        \<and> fsb (path_join H (context_dir H) (slash H fl))
            = fs (path_join H (context_dir H) (slash H fl))
        \<and> store s (typeName opts) = as @ n # bs
        \<and> get_field n ''id'' = get_field ob ''id''
        \<and> \<not> list_ex (\<lambda>m. get_field m ''id'' = get_field ob ''id'') as
        \<and> unlinked n = unlinked (node_of H ob)"
  show "\<exists>s' ys. watch_change H opts fsb fl s = Inr s'
             \<and> store s' (typeName opts) = as @ node_of H ob # bs @ ys
             \<and> get_field (node_of H ob) ''path'' = get_field n ''path''
             \<and> get_path2 (node_of H ob) ''internal'' ''content''
                 = get_path2 n ''internal'' ''content''
             \<and> get_path2 (node_of H ob) ''internal'' ''mimeType''
                 = get_path2 n ''internal'' ''mimeType''
             \<and> unlinked (node_of H ob) = unlinked n"
    by (rule change_unchanged_file[where fsa = fs]) (use a in simp_all)
next
  assume a: "createNodeOptions H opts fs (slash H fl) = Inr ob
        \<and> store s (typeName opts) = as @ n # bs
        \<and> get_field n ''id'' = get_field ob ''id''
        \<and> \<not> list_ex (\<lambda>m. get_field m ''id'' = get_field ob ''id'') as"
  show "\<exists>s' ys. watch_change H opts fs fl s = Inr s'
             \<and> store s' (typeName opts) = as @ node_of H ob # bs @ ys"
    by (rule watch_change_in_place[where n = n]) (use a in simp_all)
next
  show "\<exists>ys. map unlinked (store (createSidebar H opts s) t) = map unlinked (store s t) @ ys"
    by (rule createSidebar_unlinked)
next
  assume a: "watch_add H opts fs fl s = Inr sa
        \<and> (\<forall>ob'. get_field (node_of H ob') ''id'' = get_field ob' ''id'')
        \<and> \<not> list_ex (\<lambda>m. get_field m ''id''
                 = JStr (createUid H (path_relative H (context_dir H) (slash H fl))))
             (store s (typeName opts))
        \<and> fsb (path_join H (context_dir H) (slash H fl))
            = fs (path_join H (context_dir H) (slash H fl))"
  show "\<exists>s'. watch_change H opts fsb fl (createSidebar H opts sa) = Inr s'
             \<and> length (store s (typeName opts)) < length (store s' (typeName opts))
             \<and> store s' (typeName opts) ! length (store s (typeName opts))
                 = store sa (typeName opts) ! length (store s (typeName opts))
             \<and> unlinked (store s' (typeName opts) ! length (store s (typeName opts)))
                 = unlinked (store (createSidebar H opts sa) (typeName opts)
                              ! length (store s (typeName opts)))"
    by (rule change_after_add_and_sidebar[where fsa = fs]) (use a in simp_all)
next
  assume a: "watch_add H opts fs fl s = Inr sa
        \<and> (\<forall>ob'. get_field (node_of H ob') ''id'' = get_field ob' ''id'')
        \<and> \<not> list_ex (\<lambda>n. get_field n ''id''
                 = JStr (createUid H (path_relative H (context_dir H) (slash H fl))))
             (store s (typeName opts))"
  show "watch_change H opts fs fl sa = Inr sa"
    by (rule change_after_add) (use a in auto)
qed

theorem change_replaces_wholesale_witness:
  "(\<exists>s'. watch_change example_host (defaultOptions\<lparr>sidebarOrder := [(''v1'', [''guides''])]\<rparr>)
            (map_of [(''/site/v1/guides/a.md'', ''A''), (''/site/v1/guides/b.md'', ''B'')])
            ''v1/guides/a.md''
            (snd (loadSource example_host (defaultOptions\<lparr>sidebarOrder := [(''v1'', [''guides''])]\<rparr>)
               (map_of [(''/site/v1/guides/a.md'', ''A''), (''/site/v1/guides/b.md'', ''B'')])
               [''v1/guides/a.md'', ''v1/guides/b.md''] init_state)) = Inr s'
        \<and> get_field (hd (store s' ''FileNode'')) ''path'' = JStr ''/v1/guides/a''
        \<and> get_path2 (hd (store s' ''FileNode'')) ''internal'' ''content'' = JStr ''A''
        \<and> get_path2 (hd (store s' ''FileNode'')) ''internal'' ''mimeType'' = JStr ''application/x-md'')
   \<and> get_field (hd (store (snd (loadSource example_host
               (defaultOptions\<lparr>sidebarOrder := [(''v1'', [''guides''])]\<rparr>)
               (map_of [(''/site/v1/guides/a.md'', ''A''), (''/site/v1/guides/b.md'', ''B'')])
               [''v1/guides/a.md'', ''v1/guides/b.md''] init_state)) ''FileNode'')) ''prev''
       = JStr ''/v1/guides/b''
   \<and> (\<exists>s'. watch_add example_host defaultOptions (map_of [(''/site/v1/a.md'', ''A'')])
              ''v1/a.md'' init_state = Inr s'
          \<and> watch_change example_host defaultOptions (map_of [(''/site/v1/a.md'', ''A'')])
              ''v1/a.md'' s' = Inr s')"
proof -
  let ?O = "defaultOptions\<lparr>sidebarOrder := [(''v1'', [''guides''])]\<rparr>"
  let ?FS = "map_of [(''/site/v1/guides/a.md'', ''A''), (''/site/v1/guides/b.md'', ''B'')] :: filesystem"
  let ?S = "snd (loadSource example_host ?O ?FS [''v1/guides/a.md'', ''v1/guides/b.md''] init_state)"
  let ?OB = "[(''id'', JStr ''v1/guides/a.md''), (''path'', JStr ''/v1/guides/a''),
      (''fileInfo'', JObj [(''extension'', JStr ''.md''), (''directory'', JStr ''v1/guides''),
                           (''path'', JStr ''v1/guides/a.md''), (''name'', JStr ''a'')]),
      (''version'', JStr ''v1''), (''section'', JStr ''guides''),
      (''internal'', JObj [(''mimeType'', JStr ''application/x-md''), (''content'', JStr ''A''),
                           (''origin'', JStr ''/site/v1/guides/a.md'')])]"
  let ?XA = "?OB @ [(''prev'', JStr ''/v1/guides/b'')]"
  let ?XB = "[(''id'', JStr ''v1/guides/b.md''), (''path'', JStr ''/v1/guides/b''),
      (''fileInfo'', JObj [(''extension'', JStr ''.md''), (''directory'', JStr ''v1/guides''),
                           (''path'', JStr ''v1/guides/b.md''), (''name'', JStr ''b'')]),
      (''version'', JStr ''v1''), (''section'', JStr ''guides''),
      (''internal'', JObj [(''mimeType'', JStr ''application/x-md''), (''content'', JStr ''B''),
                           (''origin'', JStr ''/site/v1/guides/b.md'')]),
      (''next'', JStr ''/v1/guides/a'')]"
  have S: "store ?S ''FileNode'' = [?XA, ?XB]"
    by code_simp
  have tn: "typeName ?O = ''FileNode''" by (simp add: defaultOptions_def)
  have ob: "createNodeOptions example_host ?O ?FS (slash example_host ''v1/guides/a.md'') = Inr ?OB"
    by code_simp
  have u: "unlinked ?XA = unlinked (node_of example_host ?OB)"
    by (simp add: unlinked_def example_host_def)
  have i: "get_field ?XA ''id'' = get_field ?OB ''id''"
    by (simp add: get_field_def)
  have g: "store ?S (typeName ?O) = [] @ ?XA # [?XB]"
    using S by (simp only: tn append_Nil)
  have "\<exists>s' ys. watch_change example_host ?O ?FS ''v1/guides/a.md'' ?S = Inr s'
      \<and> store s' (typeName ?O) = [] @ node_of example_host ?OB # [?XB] @ ys
      \<and> get_field (node_of example_host ?OB) ''path'' = get_field ?XA ''path''
      \<and> get_path2 (node_of example_host ?OB) ''internal'' ''content''
          = get_path2 ?XA ''internal'' ''content''
      \<and> get_path2 (node_of example_host ?OB) ''internal'' ''mimeType''
          = get_path2 ?XA ''internal'' ''mimeType''
      \<and> unlinked (node_of example_host ?OB) = unlinked ?XA"
    using change_replaces_wholesale[where H = example_host and opts = ?O and fs = ?FS
        and fsb = ?FS and fl = "''v1/guides/a.md''" and ob = ?OB and s = ?S and as = "[]"
        and n = ?XA and bs = "[?XB]", THEN conjunct2, THEN conjunct2, THEN conjunct1]
      ob g i u
    by simp
  then obtain s' ys where c: "watch_change example_host ?O ?FS ''v1/guides/a.md'' ?S = Inr s'"
      "store s' (typeName ?O) = [] @ node_of example_host ?OB # [?XB] @ ys"
    by blast
  have h: "hd (store s' ''FileNode'') = ?OB"
    using c(2) by (simp add: tn example_host_def)
  have first: "\<exists>s'. watch_change example_host ?O ?FS ''v1/guides/a.md'' ?S = Inr s'
        \<and> get_field (hd (store s' ''FileNode'')) ''path'' = JStr ''/v1/guides/a''
        \<and> get_path2 (hd (store s' ''FileNode'')) ''internal'' ''content'' = JStr ''A''
        \<and> get_path2 (hd (store s' ''FileNode'')) ''internal'' ''mimeType'' = JStr ''application/x-md''"
    using c(1) h by (auto simp: get_field_def get_path2_def)
  have second: "get_field (hd (store ?S ''FileNode'')) ''prev'' = JStr ''/v1/guides/b''"
    unfolding S by (simp add: get_field_def)
  let ?fs = "map_of [(''/site/v1/a.md'', ''A'')] :: filesystem"
  have "\<not> isl (createNodeOptions example_host defaultOptions ?fs (slash example_host ''v1/a.md''))"
    by code_simp
  then have "\<not> isl (watch_add example_host defaultOptions ?fs ''v1/a.md'' init_state)"
    by (simp add: watch_add_def ingest_isl)
  then obtain sa where add: "watch_add example_host defaultOptions ?fs ''v1/a.md'' init_state = Inr sa"
    by (cases "watch_add example_host defaultOptions ?fs ''v1/a.md'' init_state") auto
  have keeps: "\<forall>ob'. get_field (node_of example_host ob') ''id'' = get_field ob' ''id''"
    by (simp add: example_host_def)
  have fresh: "\<not> list_ex (\<lambda>n. get_field n ''id''
        = JStr (createUid example_host (path_relative example_host (context_dir example_host)
                  (slash example_host ''v1/a.md''))))
      (store init_state (typeName defaultOptions))"
    by (simp add: init_state_def)
  have "watch_change example_host defaultOptions ?fs ''v1/a.md'' sa = Inr sa"
    using change_replaces_wholesale[where H = example_host and opts = defaultOptions
        and fs = ?fs and fl = "''v1/a.md''" and s = init_state and sa = sa,
        THEN conjunct2, THEN conjunct2, THEN conjunct2, THEN conjunct2, THEN conjunct2,
        THEN conjunct2] add keeps fresh
    by blast
  with add have third: "\<exists>s'. watch_add example_host defaultOptions ?fs ''v1/a.md'' init_state = Inr s'
          \<and> watch_change example_host defaultOptions ?fs ''v1/a.md'' s' = Inr s'"
    by blast
  from first second third show ?thesis by (intro conjI)
qed

text \<open>
  C8. \<open>normalizeRefs\<close> keeps every declared field name and normalizes each declared
  reference. A bare (non-empty) type name becomes \<open>{typeName: name, create: false}\<close>.
  An object keeps its \<open>typeName\<close> when it has a truthy one and takes the plugin's own
  configured \<open>typeName\<close> otherwise; its \<open>create\<close> becomes exactly \<open>true\<close> or \<open>false\<close>
  by truthiness; its other properties stay. \<open>createCollections\<close> stores the result as
  \<open>this.refs\<close>, which is what the load leaves there and what no watcher event changes.
\<close>

theorem normalizeRefs_normal_form:
  "map fst (normalizeRefs opts rs) = map fst rs
   \<and> map snd (normalizeRefs opts rs) = map (\<lambda>kr. normalizeRef opts (snd kr)) rs
   \<and> (name \<noteq> [] \<longrightarrow>
        normalizeRef opts (RefName name) = [(''typeName'', JStr name), (''create'', JBool False)])
   \<and> get_field (normalizeRef opts (RefObj ob)) ''typeName''
        = (if truthy (get_field ob ''typeName'') then get_field ob ''typeName''
           else JStr (typeName opts))
   \<and> get_field (normalizeRef opts (RefObj ob)) ''create'' = JBool (truthy (get_field ob ''create''))
   \<and> (k \<noteq> ''typeName'' \<and> k \<noteq> ''create'' \<longrightarrow>
        get_field (normalizeRef opts (RefObj ob)) k = get_field ob k)
   \<and> this_refs (createCollections opts s) = normalizeRefs opts (refs opts)
   \<and> this_refs (snd (loadSource H opts fs files s)) = normalizeRefs opts (refs opts)
   \<and> this_refs (watch_events H opts evs s') = this_refs s'"
proof (intro conjI impI)
  show "map fst (normalizeRefs opts rs) = map fst rs" by (rule normalizeRefs_keys)
  show "map snd (normalizeRefs opts rs) = map (\<lambda>kr. normalizeRef opts (snd kr)) rs"
    by (rule normalizeRefs_values)
  show "get_field (normalizeRef opts (RefObj ob)) ''typeName''
        = (if truthy (get_field ob ''typeName'') then get_field ob ''typeName''
           else JStr (typeName opts))"
    by (simp add: normalizeRef_def Let_def)
  show "get_field (normalizeRef opts (RefObj ob)) ''create'' = JBool (truthy (get_field ob ''create''))"
    by (simp add: normalizeRef_def Let_def)
  show "this_refs (createCollections opts s) = normalizeRefs opts (refs opts)" by simp
  show "this_refs (snd (loadSource H opts fs files s)) = normalizeRefs opts (refs opts)" by simp
  show "this_refs (watch_events H opts evs s') = this_refs s'" by simp
next
  assume "name \<noteq> []"
  then show "normalizeRef opts (RefName name) = [(''typeName'', JStr name), (''create'', JBool False)]"
    by (simp add: normalizeRef_def Let_def get_field_def)
next
  assume "k \<noteq> ''typeName'' \<and> k \<noteq> ''create''"
  then show "get_field (normalizeRef opts (RefObj ob)) k = get_field ob k"
    by (simp add: normalizeRef_def Let_def)
qed

theorem normalizeRefs_normal_form_witness:
  "normalizeRef defaultOptions (RefName ''Tag'') = [(''typeName'', JStr ''Tag''), (''create'', JBool False)]
   \<and> get_field (normalizeRef defaultOptions (RefObj [(''create'', JNum 1), (''route'', JStr ''/a/:id'')])) ''typeName''
       = JStr ''FileNode''
   \<and> get_field (normalizeRef defaultOptions (RefObj [(''create'', JNum 1), (''route'', JStr ''/a/:id'')])) ''create''
       = JBool True
   \<and> get_field (normalizeRef defaultOptions (RefObj [(''create'', JNum 1), (''route'', JStr ''/a/:id'')])) ''route''
       = JStr ''/a/:id''"
  using normalizeRefs_normal_form[where opts = defaultOptions and name = "''Tag''"
      and ob = "[(''create'', JNum 1), (''route'', JStr ''/a/:id'')]" and k = "''route''"]
  by (simp add: get_field_def defaultOptions_def)

text \<open>
  C9. The reference cache only grows: every watcher event (add, change, unlink), the
  bulk ingestion, the load and the sidebar pass leave every earlier cache key in place, and an
  unlink leaves the cache exactly as it was. A stub has no \<open>internal.origin\<close>, so no
  unlink matches it: a node that the removed paths do not match, a stub in particular,
  is still in its collection after any sequence of unlink events.
\<close>

theorem refsCache_additive_only:
  "refsCache s \<subseteq> refsCache (watch_events H opts evs s)
   \<and> refsCache s \<subseteq> refsCache (snd (createNodes H opts fs files s))
   \<and> refsCache s \<subseteq> refsCache (snd (loadSource H opts fs files s))
   \<and> refsCache (createSidebar H opts s) = refsCache s
   \<and> refsCache (watch_unlink H opts fl s) = refsCache s
   \<and> \<not> has_origin p (stub v)
   \<and> ((\<forall>fe \<in> set uevs. \<exists>fl'. snd fe = Unlink fl'
            \<and> \<not> has_origin (path_join H (context_dir H) (slash H fl')) n)
        \<and> n \<in> set (store s t)
      \<longrightarrow> n \<in> set (store (watch_events H opts uevs s) t))"
proof (intro conjI impI)
  show "refsCache s \<subseteq> refsCache (watch_events H opts evs s)"
    by (rule watch_events_cache_mono)
  show "refsCache s \<subseteq> refsCache (snd (createNodes H opts fs files s))"
    by (simp only: createNodes_snd createNodes_units_cache_mono)
  show "refsCache s \<subseteq> refsCache (snd (loadSource H opts fs files s))"
    by (rule loadSource_cache_mono)
  show "refsCache (createSidebar H opts s) = refsCache s" by simp
  show "refsCache (watch_unlink H opts fl s) = refsCache s" by simp
  show "\<not> has_origin p (stub v)" by simp
next
  assume a: "(\<forall>fe \<in> set uevs. \<exists>fl'. snd fe = Unlink fl'
            \<and> \<not> has_origin (path_join H (context_dir H) (slash H fl')) n)
        \<and> n \<in> set (store s t)"
  show "n \<in> set (store (watch_events H opts uevs s) t)"
    by (rule unlink_events_keep) (use a in auto)
qed

theorem refsCache_additive_only_witness:
  "''Author-author-jane'' \<in> refsCache
      (watch_events example_host defaultOptions [(Map.empty, Unlink ''v1/a.md'')]
         (addRefNode example_host (JStr ''Author'') ''author'' (JStr ''jane'') init_state))
   \<and> stub (JStr ''jane'') \<in> set (store
      (watch_events example_host defaultOptions [(Map.empty, Unlink ''v1/a.md'')]
         (addRefNode example_host (JStr ''Author'') ''author'' (JStr ''jane'') init_state))
      ''Author'')"
proof -
  let ?s = "addRefNode example_host (JStr ''Author'') ''author'' (JStr ''jane'') init_state"
  let ?evs = "[(Map.empty, Unlink ''v1/a.md'')] :: (filesystem \<times> event) list"
  note t = refsCache_additive_only[where s = ?s and H = example_host and opts = defaultOptions
      and evs = ?evs and uevs = ?evs and n = "stub (JStr ''jane'')" and t = "''Author''"]
  have k: "''Author-author-jane'' \<in> refsCache ?s"
    by (simp add: addRefNode_unfold cacheKey_def init_state_def)
  have m: "stub (JStr ''jane'') \<in> set (store ?s ''Author'')"
    by (simp add: addRefNode_unfold cacheKey_def init_state_def example_host_def)
  have u: "\<forall>fe \<in> set ?evs. \<exists>fl'. snd fe = Unlink fl'
      \<and> \<not> has_origin (path_join example_host (context_dir example_host) (slash example_host fl'))
            (stub (JStr ''jane''))"
    by simp
  from t k have "''Author-author-jane'' \<in> refsCache (watch_events example_host defaultOptions ?evs ?s)"
    by blast
  moreover from t u m
  have "stub (JStr ''jane'') \<in> set (store (watch_events example_host defaultOptions ?evs ?s) ''Author'')"
    by blast
  ultimately show ?thesis by simp
qed

text \<open>
  C10. For a reference field with \<open>create\<close> true, a falsy value creates no stub and
  marks nothing: \<open>addRefNode\<close> on a falsy value leaves the state (graph and cache) as it
  was; a node whose field is falsy is skipped by the loop of \<open>createNodeRefs\<close>; and an
  array-valued field resolves exactly as the same array without its falsy elements.
\<close>

theorem falsy_values_create_no_stub:
  "(\<not> truthy v \<longrightarrow> addRefNode H tn f v s = s)
   \<and> (\<not> truthy (get_field n f) \<longrightarrow> createNodeRefs_field H (Some n) s (f, r) = s)
   \<and> (get_field n f = JArr vs \<longrightarrow>
        createNodeRefs_field H (Some n) s (f, r)
          = createNodeRefs_field H (Some (set_field n f (JArr (filter truthy vs)))) s (f, r))"
proof (intro conjI impI)
  assume "\<not> truthy v"
  then show "addRefNode H tn f v s = s" by (simp add: addRefNode_unfold)
next
  assume "\<not> truthy (get_field n f)"
  then show "createNodeRefs_field H (Some n) s (f, r) = s"
    by (simp add: createNodeRefs_field_def)
next
  assume a: "get_field n f = JArr vs"
  have skip: "\<And>s. foldl (\<lambda>s' v'. addRefNode H tn f v' s') s vs
        = foldl (\<lambda>s' v'. addRefNode H tn f v' s') s (filter truthy vs)" for tn
  proof (induction vs)
    case Nil
    then show ?case by simp
  next
    case (Cons v vs)
    then show ?case by (cases "truthy v") (simp_all add: addRefNode_unfold)
  qed
  show "createNodeRefs_field H (Some n) s (f, r)
          = createNodeRefs_field H (Some (set_field n f (JArr (filter truthy vs)))) s (f, r)"
    using a skip by (simp add: createNodeRefs_field_def Let_def)
qed

theorem falsy_values_create_no_stub_witness:
  "addRefNode example_host (JStr ''Author'') ''author'' (JStr []) init_state = init_state
   \<and> createNodeRefs_field example_host (Some [(''author'', JNum 0)]) init_state
        (''author'', [(''typeName'', JStr ''Author''), (''create'', JBool True)]) = init_state
   \<and> createNodeRefs_field example_host
        (Some [(''author'', JArr [JStr ''jane'', JNull, JStr [], JUndefined, JBool False])])
        init_state (''author'', [(''typeName'', JStr ''Author''), (''create'', JBool True)])
      = createNodeRefs_field example_host (Some [(''author'', JArr [JStr ''jane''])])
          init_state (''author'', [(''typeName'', JStr ''Author''), (''create'', JBool True)])"
  using falsy_values_create_no_stub[where v = "JStr []" and H = example_host
      and tn = "JStr ''Author''" and f = "''author''" and s = init_state
      and n = "[(''author'', JNum 0)]"
      and r = "[(''typeName'', JStr ''Author''), (''create'', JBool True)]"]
    falsy_values_create_no_stub[where v = "JStr []" and H = example_host
      and tn = "JStr ''Author''" and f = "''author''" and s = init_state
      and n = "[(''author'', JArr [JStr ''jane'', JNull, JStr [], JUndefined, JBool False])]"
      and r = "[(''typeName'', JStr ''Author''), (''create'', JBool True)]"
      and vs = "[JStr ''jane'', JNull, JStr [], JUndefined, JBool False]"]
  by (simp add: get_field_def)

end
